theory Spec2Isabelle
  imports Main
begin

section \<open>Selection trees and external index groups\<close>

text \<open>
  The embedding follows \<^verbatim>\<open>src/gromacs/selection/selectioncollection.cpp\<close>.
  The element types of a selection tree node (\<^verbatim>\<open>e_selelem_t\<close> of \<^verbatim>\<open>selelem.h\<close>).
\<close>

datatype e_selelem_t =
    SEL_CONST | SEL_EXPRESSION | SEL_BOOLEAN | SEL_ARITHMETIC | SEL_ROOT
  | SEL_SUBEXPR | SEL_SUBEXPRREF | SEL_GROUPREF | SEL_MODIFIER

text \<open>An index group (\<^verbatim>\<open>gmx_ana_index_t\<close>): a name and an ordered sequence of atom indices.\<close>

datatype gmx_ana_index_t = Index_group (grp_name: string) (grp_index: "int list")

type_synonym gmx_ana_indexgrps_t = "gmx_ana_index_t list"

text \<open>
  The payload \<^verbatim>\<open>u\<close> of a node: \<^verbatim>\<open>u.gref\<close> (a name, NULL when the reference is by
  number, and the number \<^verbatim>\<open>id\<close>), \<^verbatim>\<open>u.cgrp\<close> (a constant group), or another payload that
  the functions modelled here never read.
\<close>

datatype selelem_u =
    U_gref (gref_name: "string option") (gref_id: int)
  | U_cgrp gmx_ana_index_t
  | U_other

text \<open>
  A node (\<^verbatim>\<open>SelectionTreeElement\<close>): its type, its name, its payload and its children. The
  \<^verbatim>\<open>child\<close>/\<^verbatim>\<open>next\<close> pointer chain of the source is the list of children, in chain order.
\<close>

datatype selelem =
  SelElem (el_type: e_selelem_t) (el_name: string) (el_u: selelem_u) (el_child: "selelem list")

text \<open>
  Modelled from the spec: \<^verbatim>\<open>gmx_ana_indexgrps_find\<close> and \<^verbatim>\<open>gmx_ana_indexgrps_extract\<close>
  (\<^verbatim>\<open>indexutil.c\<close>, not among the sources). A group set is a named, ordered collection of
  index groups; a reference is by name or by positional id, and resolution fails for an
  unknown name or an out-of-range positional id.
\<close>

definition gmx_ana_indexgrps_find :: "gmx_ana_indexgrps_t \<Rightarrow> string \<Rightarrow> gmx_ana_index_t option" where
  "gmx_ana_indexgrps_find src name = find (\<lambda>g. grp_name g = name) src"

definition gmx_ana_indexgrps_extract :: "gmx_ana_indexgrps_t \<Rightarrow> int \<Rightarrow> gmx_ana_index_t option" where
  "gmx_ana_indexgrps_extract src n =
     (if n < 0 \<or> n \<ge> int (length src) then None else Some (src ! nat n))"

text \<open>
  Modelled from the spec: \<^verbatim>\<open>MessageStringCollector\<close> (\<^verbatim>\<open>messagestringcollector.h\<close>, not
  among the sources) collects messages and hands out their concatenation, one message a line.
\<close>

type_synonym MessageStringCollector = "string list"

definition toString :: "MessageStringCollector \<Rightarrow> string" where
  "toString errors = concat (map (\<lambda>m. m @ [CHR 0x0A]) errors)"

definition unknown_group_msg :: string where
  "unknown_group_msg = ''Unknown group referenced in a selection''"

text \<open>
  \<^verbatim>\<open>SelectionCollection::Impl::resolveExternalGroups\<close>, first the lookup that it makes
  for a node of type \<^verbatim>\<open>SEL_GROUPREF\<close>: nothing is found in the NULL group set; otherwise
  the group is looked up by name when the reference has one, and by id when it has none.
  A node of that type always carries the payload \<^verbatim>\<open>u.gref\<close>; for any other payload the
  lookup is taken to fail.
\<close>

fun gref_lookup :: "gmx_ana_indexgrps_t option \<Rightarrow> selelem_u \<Rightarrow> gmx_ana_index_t option" where
  "gref_lookup None u = None"
| "gref_lookup (Some grps) (U_gref (Some name) i) = gmx_ana_indexgrps_find grps name"
| "gref_lookup (Some grps) (U_gref None i) = gmx_ana_indexgrps_extract grps i"
| "gref_lookup (Some grps) u = None"

text \<open>
  The function itself: the node is retagged \<^verbatim>\<open>SEL_CONST\<close>, holds the group and is renamed
  after it when the lookup succeeds; an error is appended when it fails, and the node is
  then taken as left untouched (the source does not write to it; what the two lookup
  functions leave in their output argument on failure is not modelled). The children are
  visited in chain order whatever happened at the node. \<open>resolve_children\<close> is the
  \<^verbatim>\<open>while\<close> loop over a chain of siblings, with the one collector passed along.
\<close>

fun resolveExternalGroups ::
    "gmx_ana_indexgrps_t option \<Rightarrow> selelem \<Rightarrow> MessageStringCollector
       \<Rightarrow> selelem \<times> MessageStringCollector"
  and resolve_children ::
    "gmx_ana_indexgrps_t option \<Rightarrow> selelem list \<Rightarrow> MessageStringCollector
       \<Rightarrow> selelem list \<times> MessageStringCollector"
where
  "resolveExternalGroups grps (SelElem ty nm u ch) errors =
     (if ty = SEL_GROUPREF then
        (case gref_lookup grps u of
           None \<Rightarrow>
             (let (ch', errors') = resolve_children grps ch (errors @ [unknown_group_msg])
              in (SelElem ty nm u ch', errors'))
         | Some g \<Rightarrow>
             (let (ch', errors') = resolve_children grps ch errors
              in (SelElem SEL_CONST (grp_name g) (U_cgrp g) ch', errors')))
      else
        (let (ch', errors') = resolve_children grps ch errors
         in (SelElem ty nm u ch', errors')))"
| "resolve_children grps [] errors = ([], errors)"
| "resolve_children grps (c # cs) errors =
     (let (c', errors') = resolveExternalGroups grps c errors;
          (cs', errors'') = resolve_children grps cs errors'
      in (c' # cs', errors''))"


section \<open>The collection and its operations\<close>

text \<open>
  The exceptions of \<^verbatim>\<open>exceptions.h\<close> that the file throws or lets pass, each with its
  message, an exception with a context prepended, and the failure of a
  \<^verbatim>\<open>GMX_ASSERT\<close>/\<^verbatim>\<open>GMX_RELEASE_ASSERT\<close>, which ends the program.
\<close>

datatype gmx_error =
    InvalidInputError string
  | InconsistentInputError string
  | InternalError string
  | FileIOError string
  | WithContext string gmx_error
  | AssertionFailed string



text \<open>The position calculation types (\<^verbatim>\<open>e_poscalc_t\<close> of \<^verbatim>\<open>poscalc.h\<close>).\<close>

datatype e_poscalc_t = POS_ATOM | POS_RES | POS_MOL | POS_ALL | POS_ALL_PBC

text \<open>
  The state held by \<^verbatim>\<open>SelectionCollection::Impl\<close>: its own members and those members of
  \<^verbatim>\<open>sc_\<close> (\<^verbatim>\<open>gmx_ana_selcollection_t\<close>) that the functions modelled here read or write
  (the root chain, the selections, the topology, the size of the group of all atoms and
  the position calculation collection). The topology, the position calculation
  collection and the selection data are kept abstract. A member \<^verbatim>\<open>x_\<close> of the class is
  the field \<open>impl_x\<close>.
\<close>

record ('top, 'pcc, 'sel) impl =
  impl_debugLevel :: int
  impl_bExternalGroupsSet :: bool
  impl_grps :: "gmx_ana_indexgrps_t option"
  impl_rpost :: string
  impl_spost :: string
  sc_root :: "selelem list"
  sc_sel :: "'sel list"
  sc_top :: "'top option"
  sc_gall :: int
  sc_pcc :: 'pcc

text \<open>\<^verbatim>\<open>SelectionCollection::Impl::Impl\<close>, for a freshly constructed position calculation collection.\<close>

definition Impl_init :: "'pcc \<Rightarrow> ('top, 'pcc, 'sel) impl" where
  "Impl_init pcc0 =
     \<lparr> impl_debugLevel = 0, impl_bExternalGroupsSet = False, impl_grps = None,
       impl_rpost = [], impl_spost = [], sc_root = [], sc_sel = [], sc_top = None,
       sc_gall = 0, sc_pcc = pcc0 \<rparr>"

text \<open>
  A \<^verbatim>\<open>void\<close> member function returns the exception it threw, if any, and the state it left.
\<close>

type_synonym ('top, 'pcc, 'sel) outcome = "gmx_error option \<times> ('top, 'pcc, 'sel) impl"

text \<open>
  \<^verbatim>\<open>setReferencePosType\<close> and \<^verbatim>\<open>setOutputPosType\<close>. The argument is a C string or NULL.
  \<^verbatim>\<open>PositionCalculationCollection::typeFromEnum\<close> (\<^verbatim>\<open>poscalc.cpp\<close>, not among the sources)
  is the parameter \<open>typeFromEnum\<close>: it throws or yields the position type of the name.
\<close>

definition setReferencePosType ::
    "(string \<Rightarrow> gmx_error + e_poscalc_t) \<Rightarrow> string option \<Rightarrow> ('top, 'pcc, 'sel) impl
       \<Rightarrow> ('top, 'pcc, 'sel) outcome" where
  "setReferencePosType typeFromEnum type s =
     (case type of
        None \<Rightarrow> (Some (AssertionFailed ''Cannot assign NULL position type''), s)
      | Some t \<Rightarrow>
          (case typeFromEnum t of
             Inl e \<Rightarrow> (Some e, s)
           | Inr dummytype \<Rightarrow> (None, s\<lparr>impl_rpost := t\<rparr>)))"

definition setOutputPosType ::
    "(string \<Rightarrow> gmx_error + e_poscalc_t) \<Rightarrow> string option \<Rightarrow> ('top, 'pcc, 'sel) impl
       \<Rightarrow> ('top, 'pcc, 'sel) outcome" where
  "setOutputPosType typeFromEnum type s =
     (case type of
        None \<Rightarrow> (Some (AssertionFailed ''Cannot assign NULL position type''), s)
      | Some t \<Rightarrow>
          (case typeFromEnum t of
             Inl e \<Rightarrow> (Some e, s)
           | Inr dummytype \<Rightarrow> (None, s\<lparr>impl_spost := t\<rparr>)))"

definition setDebugLevel :: "int \<Rightarrow> ('top, 'pcc, 'sel) impl \<Rightarrow> ('top, 'pcc, 'sel) impl" where
  "setDebugLevel debugLevel s = s\<lparr>impl_debugLevel := debugLevel\<rparr>"

text \<open>
  \<^verbatim>\<open>setTopology\<close>. The atom count of a topology (\<^verbatim>\<open>top->atoms.nr\<close>) and
  \<^verbatim>\<open>PositionCalculationCollection::setTopology\<close> are parameters.
\<close>

definition setTopology ::
    "('top \<Rightarrow> int) \<Rightarrow> ('top option \<Rightarrow> 'pcc \<Rightarrow> 'pcc) \<Rightarrow> 'top option \<Rightarrow> int
       \<Rightarrow> ('top, 'pcc, 'sel) impl \<Rightarrow> ('top, 'pcc, 'sel) outcome" where
  "setTopology atoms_nr pcc_setTopology topol natoms s =
     (if \<not> (natoms > 0 \<or> topol \<noteq> None) then
        (Some (AssertionFailed
           ''The number of atoms must be given if there is no topology''), s)
      else
        (let natoms' = (if natoms \<le> 0 then (case topol of Some t \<Rightarrow> atoms_nr t | None \<Rightarrow> natoms)
                        else natoms)
         in (None, s\<lparr>sc_gall := natoms', sc_pcc := pcc_setTopology topol (sc_pcc s),
                      sc_top := topol\<rparr>)))"

text \<open>
  \<^verbatim>\<open>setIndexGroups\<close>: the precondition, the two assignments, the resolution of every root
  of the chain \<^verbatim>\<open>sc_.root\<close> with one collector, and the throw when the collector is not
  empty. The roots are modified in place, so the state that a throwing call leaves
  holds the resolved roots.
\<close>

definition setIndexGroups ::
    "gmx_ana_indexgrps_t option \<Rightarrow> ('top, 'pcc, 'sel) impl \<Rightarrow> ('top, 'pcc, 'sel) outcome" where
  "setIndexGroups grps s =
     (if \<not> (grps = None \<or> \<not> impl_bExternalGroupsSet s) then
        (Some (AssertionFailed
           ''Can only set external groups once or clear them afterwards''), s)
      else
        (let s1 = s\<lparr>impl_grps := grps, impl_bExternalGroupsSet := True\<rparr>;
             (root', errors) = resolve_children (impl_grps s1) (sc_root s1) [];
             s2 = s1\<lparr>sc_root := root'\<rparr>
         in if errors \<noteq> [] then (Some (InvalidInputError (toString errors)), s2)
            else (None, s2)))"

text \<open>
  \<^verbatim>\<open>requiresTopology\<close>. \<^verbatim>\<open>_gmx_selelem_requires_top\<close> (\<^verbatim>\<open>selelem.cpp\<close>, not among the
  sources) is the parameter \<open>requires_top\<close>. An exception of \<open>typeFromEnum\<close> leaves the
  function, as in the source, which has no handler.
\<close>

definition requiresTopology ::
    "(string \<Rightarrow> gmx_error + e_poscalc_t) \<Rightarrow> (selelem \<Rightarrow> bool) \<Rightarrow> ('top, 'pcc, 'sel) impl
       \<Rightarrow> gmx_error + bool" where
  "requiresTopology typeFromEnum requires_top s =
     (case (if impl_rpost s \<noteq> [] then typeFromEnum (impl_rpost s) else Inr POS_ATOM) of
        Inl e \<Rightarrow> Inl e
      | Inr type \<Rightarrow>
          if type \<noteq> POS_ATOM then Inr True
          else
            (case (if impl_spost s \<noteq> [] then typeFromEnum (impl_spost s) else Inr POS_ATOM) of
               Inl e \<Rightarrow> Inl e
             | Inr type' \<Rightarrow>
                 if type' \<noteq> POS_ATOM then Inr True
                 else Inr (list_ex requires_top (sc_root s))))"

text \<open>
  What is written to \<^verbatim>\<open>stderr\<close>: a text, one call of \<^verbatim>\<open>_gmx_selelem_print_tree\<close> (the
  tree, \<^verbatim>\<open>bValues\<close>, the level), or one call of the position calculation collection's
  \<^verbatim>\<open>printTree\<close>.
\<close>

datatype 'pcc stderr_item =
    Text string
  | Selelem_tree selelem bool int
  | Poscalc_tree 'pcc

definition printTree :: "bool \<Rightarrow> ('top, 'pcc, 'sel) impl \<Rightarrow> 'pcc stderr_item list" where
  "printTree bValues s = map (\<lambda>sel. Selelem_tree sel bValues 0) (sc_root s)"

text \<open>
  \<^verbatim>\<open>compile\<close>. \<^verbatim>\<open>SelectionCompiler::compile\<close> and
  \<^verbatim>\<open>PositionCalculationCollection::initEvaluation\<close> are parameters; the output is the one
  written by the statements of \<^verbatim>\<open>compile\<close> itself.
\<close>

definition compile ::
    "(string \<Rightarrow> gmx_error + e_poscalc_t) \<Rightarrow> (selelem \<Rightarrow> bool)
       \<Rightarrow> (('top, 'pcc, 'sel) impl \<Rightarrow> ('top, 'pcc, 'sel) outcome) \<Rightarrow> ('pcc \<Rightarrow> 'pcc)
       \<Rightarrow> ('top, 'pcc, 'sel) impl \<Rightarrow> 'pcc stderr_item list \<times> ('top, 'pcc, 'sel) outcome" where
  "compile typeFromEnum requires_top compiler initEvaluation s =
     (case (if sc_top s = None then requiresTopology typeFromEnum requires_top s
            else Inr False) of
        Inl e \<Rightarrow> ([], Some e, s)
      | Inr needs \<Rightarrow>
          if needs then
            ([], Some (InconsistentInputError
                   ''Selection requires topology information, but none provided''), s)
          else
            (case (if \<not> impl_bExternalGroupsSet s then setIndexGroups None s else (None, s)) of
               (Some e, s1) \<Rightarrow> ([], Some e, s1)
             | (None, s1) \<Rightarrow>
                 (let out1 = (if impl_debugLevel s1 \<ge> 1 then printTree False s1 else [])
                  in case compiler s1 of
                       (Some e, s2) \<Rightarrow> (out1, Some e, s2)
                     | (None, s2) \<Rightarrow>
                         (let out2 = (if impl_debugLevel s2 \<ge> 1
                                      then [Text [CHR 0x0A]] @ printTree False s2
                                             @ [Text [CHR 0x0A], Poscalc_tree (sc_pcc s2),
                                                Text [CHR 0x0A]]
                                      else []);
                              s3 = s2\<lparr>sc_pcc := initEvaluation (sc_pcc s2)\<rparr>;
                              out3 = (if impl_debugLevel s3 \<ge> 1
                                      then [Poscalc_tree (sc_pcc s3), Text [CHR 0x0A]]
                                      else [])
                          in (out1 @ out2 @ out3, None, s3)))))"

text \<open>
  \<^verbatim>\<open>evaluate\<close>. \<^verbatim>\<open>PositionCalculationCollection::initFrame\<close> and
  \<^verbatim>\<open>SelectionEvaluator::evaluate\<close> are parameters.
\<close>

definition evaluate ::
    "('pcc \<Rightarrow> 'pcc) \<Rightarrow> (('top, 'pcc, 'sel) impl \<Rightarrow> 'fr \<Rightarrow> 'pbc \<Rightarrow> ('top, 'pcc, 'sel) outcome)
       \<Rightarrow> 'fr \<Rightarrow> 'pbc \<Rightarrow> ('top, 'pcc, 'sel) impl
       \<Rightarrow> 'pcc stderr_item list \<times> ('top, 'pcc, 'sel) outcome" where
  "evaluate initFrame evaluator fr pbc s =
     (let s1 = s\<lparr>sc_pcc := initFrame (sc_pcc s)\<rparr>
      in case evaluator s1 fr pbc of
           (Some e, s2) \<Rightarrow> ([], Some e, s2)
         | (None, s2) \<Rightarrow>
             (if impl_debugLevel s2 \<ge> 3 then [Text [CHR 0x0A]] @ printTree True s2 else [],
              None, s2))"


section \<open>Reading and parsing selections\<close>

text \<open>
  \<^verbatim>\<open>endsWith\<close> of \<^verbatim>\<open>stringutil.h\<close>: whether the string ends with the suffix.
\<close>

definition endsWith :: "string \<Rightarrow> string \<Rightarrow> bool" where
  "endsWith str suffix =
     (length suffix \<le> length str \<and> drop (length str - length suffix) str = suffix)"

text \<open>
  Modelled from the spec: \<^verbatim>\<open>File::readLine\<close> (\<^verbatim>\<open>file.h\<close>, not among the sources). The
  input is what is left to read; a line is read up to its newline, which it keeps, and
  the call tells whether anything was read.
\<close>

fun readLine_split :: "string \<Rightarrow> string \<times> string" where
  "readLine_split [] = ([], [])"
| "readLine_split (c # cs) =
     (if c = CHR 0x0A then ([c], cs)
      else (let (l, r) = readLine_split cs in (c # l, r)))"

definition readLine :: "string \<Rightarrow> bool \<times> string \<times> string" where
  "readLine infile = (let (l, r) = readLine_split infile in (l \<noteq> [], l, r))"

text \<open>
  \<^verbatim>\<open>promptLine\<close>, first its \<^verbatim>\<open>while\<close> loop: as long as the line ends with a backslash and
  a newline, both are cut off and the next line is appended (nothing, at the end of the
  input). The arguments are the flag, the input, the line and what was printed so far.
\<close>

function promptLine_while ::
    "bool \<Rightarrow> string \<Rightarrow> string \<Rightarrow> string list \<Rightarrow> string \<times> string \<times> string list" where
  "promptLine_while bInteractive infile line out =
     (if endsWith line [CHR 0x5C, CHR 0x0A] then
        (case readLine infile of
           (ok, buffer, infile') \<Rightarrow>
             promptLine_while bInteractive infile'
               (take (length line - 2) line @ buffer)
               (if bInteractive then out @ [''... ''] else out))
      else (infile, line, out))"
  by pat_completeness auto

termination promptLine_while
proof -
  have len: "length (fst (readLine_split s)) + length (snd (readLine_split s)) = length s" for s
    by (induction s) (auto split: prod.splits)
  have ne: "s \<noteq> [] \<Longrightarrow> fst (readLine_split s) \<noteq> []" for s
    by (cases s) (auto split: prod.splits)
  have step: "length r < length f \<or> (length r = length f \<and> l = [])"
    if "readLine_split f = (l, r)" for f l r
  proof (cases "f = []")
    case True
    with that show ?thesis by simp
  next
    case False
    with ne[of f] that have "l \<noteq> []" by simp
    then have "Suc 0 \<le> length l" by (cases l) simp_all
    moreover from len[of f] that have "length l + length r = length f" by simp
    ultimately show ?thesis by arith
  qed
  show ?thesis
  proof (relation "measures [\<lambda>(b, f, l, out). length f, \<lambda>(b, f, l, out). length l]", goal_cases)
    case 1
    show ?case by simp
  next
    case 2
    then show ?case
      by (auto simp: readLine_def endsWith_def split: prod.splits dest: step)
  qed
qed

declare promptLine_while.simps [simp del]

text \<open>
  \<^verbatim>\<open>promptLine\<close>: whether a line was read, the line, the input left and what was printed
  to \<^verbatim>\<open>stderr\<close>.
\<close>

definition promptLine :: "bool \<Rightarrow> string \<Rightarrow> bool \<times> string \<times> string \<times> string list" where
  "promptLine bInteractive infile =
     (let out0 = (if bInteractive then [''> ''] else [])
      in case readLine infile of
           (ok, line, infile1) \<Rightarrow>
             if \<not> ok then (False, line, infile1, out0)
             else
               (case promptLine_while bInteractive infile1 line out0 of
                  (infile2, line2, out2) \<Rightarrow>
                    if endsWith line2 [CHR 0x0A]
                    then (True, take (length line2 - 1) line2, infile2, out2)
                    else (True, line2, infile2,
                          if bInteractive then out2 @ [ [CHR 0x0A] ] else out2)))"

text \<open>
  Modelled from the spec: the tokens of \<^verbatim>\<open>parser.h\<close> and the tokenizer
  \<^verbatim>\<open>_gmx_sel_yylex\<close> of \<^verbatim>\<open>scanner.h\<close> (not among the sources). A token is a lexical
  unit with a kind and a value, produced lazily and consumed once; the kind 0 is the end
  of the input, \<^verbatim>\<open>CMD_SEP\<close> the separator of commands. The tokenizer hands out the tokens
  of its input one by one, and the end of input once they are used up.
\<close>

datatype token_t = EOF_TOKEN | CMD_SEP | OTHER_TOKEN int

definition yylex :: "(token_t \<times> 'v) list \<Rightarrow> (token_t \<times> 'v option) \<times> (token_t \<times> 'v) list" where
  "yylex input =
     (case input of
        [] \<Rightarrow> ((EOF_TOKEN, None), [])
      | (token, v) # rest \<Rightarrow> ((token, Some v), rest))"

text \<open>
  The status \<^verbatim>\<open>YYPUSH_MORE\<close> of a push parser, with the value that the parser
  generator gives it in \<^verbatim>\<open>parser.h\<close> (not among the sources); the status 0 is acceptance.
\<close>

definition YYPUSH_MORE :: int where
  "YYPUSH_MORE = 4"

text \<open>
  What the parser and the tokenizer share through the scanner: the collection that the
  parser adds selections to, the error reporter, and the exception that an action may
  have stored for \<^verbatim>\<open>_gmx_sel_lexer_rethrow_exception_if_occurred\<close>.
\<close>

record ('top, 'pcc, 'sel) parse_ctx =
  pc_sc :: "('top, 'pcc, 'sel) impl"
  pc_errors :: MessageStringCollector
  pc_exception :: "gmx_error option"

text \<open>
  The push parser \<^verbatim>\<open>_gmx_sel_yypush_parse\<close> (\<^verbatim>\<open>parser.h\<close>, not among the sources) is a
  parameter: from its state, a token with its value and the shared context it yields a
  status, its new state and the new context.
\<close>

type_synonym ('p, 'v, 'top, 'pcc, 'sel) yypush_parse =
  "'p \<Rightarrow> token_t \<Rightarrow> 'v option \<Rightarrow> ('top, 'pcc, 'sel) parse_ctx
     \<Rightarrow> int \<times> 'p \<times> ('top, 'pcc, 'sel) parse_ctx"

text \<open>
  The \<^verbatim>\<open>do\<close> loop of \<^verbatim>\<open>runParserLoop\<close>. At the head of the body \<^verbatim>\<open>status\<close> is
  \<^verbatim>\<open>YYPUSH_MORE\<close>, which is what \<^verbatim>\<open>break\<close> leaves in it and what lets \<^verbatim>\<open>continue\<close> go
  on. The loop need not end: no result is \<open>None\<close>.
\<close>

partial_function (option) runParserLoop_do ::
    "('p, 'v, 'top, 'pcc, 'sel) yypush_parse \<Rightarrow> bool \<Rightarrow> (token_t \<times> 'v) list \<Rightarrow> token_t
       \<Rightarrow> 'p \<Rightarrow> ('top, 'pcc, 'sel) parse_ctx
       \<Rightarrow> (int \<times> 'p \<times> ('top, 'pcc, 'sel) parse_ctx) option" where
  "runParserLoop_do yypush_parse bInteractive input prevToken parserState ctx =
     (case yylex input of
        ((token, v), input') \<Rightarrow>
          if bInteractive \<and> token = EOF_TOKEN then Some (YYPUSH_MORE, parserState, ctx)
          else if bInteractive \<and> prevToken = CMD_SEP \<and> token = CMD_SEP then
            runParserLoop_do yypush_parse bInteractive input' prevToken parserState ctx
          else
            (case yypush_parse parserState token v ctx of
               (status, parserState', ctx') \<Rightarrow>
                 if status = YYPUSH_MORE then
                   runParserLoop_do yypush_parse bInteractive input'
                     (if bInteractive then token else prevToken) parserState' ctx'
                 else Some (status, parserState', ctx')))"

text \<open>
  \<^verbatim>\<open>runParserLoop\<close>: the loop from \<^verbatim>\<open>prevToken = 0\<close>, then the stored exception, if any,
  is thrown instead of returning the status.
\<close>

definition rethrow_exception_if_occurred ::
    "('top, 'pcc, 'sel) parse_ctx \<Rightarrow> int \<Rightarrow> gmx_error + int" where
  "rethrow_exception_if_occurred ctx status =
     (case pc_exception ctx of Some e \<Rightarrow> Inl e | None \<Rightarrow> Inr status)"

definition runParserLoop ::
    "('p, 'v, 'top, 'pcc, 'sel) yypush_parse \<Rightarrow> bool \<Rightarrow> (token_t \<times> 'v) list
       \<Rightarrow> 'p \<Rightarrow> ('top, 'pcc, 'sel) parse_ctx
       \<Rightarrow> ((gmx_error + int) \<times> 'p \<times> ('top, 'pcc, 'sel) parse_ctx) option" where
  "runParserLoop yypush_parse bInteractive input parserState ctx =
     (case runParserLoop_do yypush_parse bInteractive input EOF_TOKEN parserState ctx of
        None \<Rightarrow> None
      | Some (status, parserState', ctx') \<Rightarrow>
          Some (rethrow_exception_if_occurred ctx' status, parserState', ctx'))"


text \<open>
  The scanner as \<^verbatim>\<open>_gmx_sel_init_lexer\<close> and the \<^verbatim>\<open>_gmx_sel_set_lex_input_\<close> functions set
  it up: the collection it points to, whether it is interactive, and the tokens of its
  input. The tokenizer's reading of a text is the parameter \<open>tokenize\<close>.
\<close>

record ('v, 'top, 'pcc, 'sel) scanner =
  lex_sc :: "('top, 'pcc, 'sel) impl"
  lex_interactive :: bool
  lex_input :: "(token_t \<times> 'v) list"

text \<open>
  The \<^verbatim>\<open>while\<close> loop of the line-based branch of \<^verbatim>\<open>runParser\<close>, with the push of the end
  of input that follows it. The result is the exception thrown or the status at
  \<^verbatim>\<open>early_termination\<close>, the context, what was printed and the input left.
\<close>

partial_function (option) runParser_while ::
    "('p, 'v, 'top, 'pcc, 'sel) yypush_parse \<Rightarrow> (string \<Rightarrow> (token_t \<times> 'v) list) \<Rightarrow> bool
       \<Rightarrow> string \<Rightarrow> 'p \<Rightarrow> ('top, 'pcc, 'sel) parse_ctx \<Rightarrow> string list
       \<Rightarrow> ((gmx_error + int) \<times> ('top, 'pcc, 'sel) parse_ctx \<times> string list \<times> string) option"
where
  "runParser_while yypush_parse tokenize bInteractive stdinFile parserState ctx out =
     (case promptLine bInteractive stdinFile of
        (ok, line, stdinFile', pout) \<Rightarrow>
          if \<not> ok then
            (case yypush_parse parserState EOF_TOKEN None ctx of
               (status, parserState', ctx') \<Rightarrow>
                 Some (rethrow_exception_if_occurred ctx' status, ctx', out @ pout, stdinFile'))
          else
            (case runParserLoop yypush_parse True (tokenize (line @ [CHR 0x0A]))
                    parserState ctx of
               None \<Rightarrow> None
             | Some (r, parserState', ctx') \<Rightarrow>
                 (case r of
                    Inl e \<Rightarrow> Some (Inl e, ctx', out @ pout, stdinFile')
                  | Inr status \<Rightarrow>
                      if status \<noteq> YYPUSH_MORE then
                        Some (Inr status, ctx', out @ pout, stdinFile')
                      else if pc_errors ctx' \<noteq> [] \<and> bInteractive then
                        runParser_while yypush_parse tokenize bInteractive stdinFile'
                          parserState' (ctx'\<lparr>pc_errors := []\<rparr>)
                          (out @ pout @ [toString (pc_errors ctx')])
                      else
                        runParser_while yypush_parse tokenize bInteractive stdinFile'
                          parserState' ctx' (out @ pout))))"

text \<open>
  The block of \<^verbatim>\<open>runParser\<close> that runs the parser, from a new parser state
  (\<^verbatim>\<open>_gmx_sel_yypstate_new\<close>, a parameter) and an empty collector.
\<close>

definition runParser_parse ::
    "('p, 'v, 'top, 'pcc, 'sel) yypush_parse \<Rightarrow> (string \<Rightarrow> (token_t \<times> 'v) list) \<Rightarrow> 'p
       \<Rightarrow> string \<Rightarrow> ('v, 'top, 'pcc, 'sel) scanner \<Rightarrow> bool
       \<Rightarrow> ((gmx_error + int) \<times> ('top, 'pcc, 'sel) parse_ctx \<times> string list \<times> string) option"
where
  "runParser_parse yypush_parse tokenize yypstate_new stdinFile scanner bStdIn =
     (let ctx0 = \<lparr>pc_sc = lex_sc scanner, pc_errors = [], pc_exception = None\<rparr>
      in if bStdIn then
           runParser_while yypush_parse tokenize (lex_interactive scanner) stdinFile
             yypstate_new ctx0 []
         else
           (case runParserLoop yypush_parse False (lex_input scanner) yypstate_new ctx0 of
              None \<Rightarrow> None
            | Some (r, parserState', ctx') \<Rightarrow> Some (r, ctx', [], stdinFile)))"

text \<open>
  The rest of \<^verbatim>\<open>runParser\<close>, from \<^verbatim>\<open>scannerGuard.reset()\<close> on: the count of new
  selections, the check against \<^verbatim>\<open>maxnr\<close>, the throw, and the list of the new selections.
  \<^verbatim>\<open>GMX_ASSERT\<close> is taken as checked (a build without \<^verbatim>\<open>NDEBUG\<close>).
\<close>

definition runParser_finish ::
    "int \<Rightarrow> int \<Rightarrow> int \<Rightarrow> ('top, 'pcc, 'sel) parse_ctx \<Rightarrow> gmx_error + 'sel list" where
  "runParser_finish oldCount maxnr status ctx =
     (let nr = int (length (sc_sel (pc_sc ctx))) - oldCount;
          mismatch = (maxnr > 0 \<and> nr \<noteq> maxnr);
          bOk = (if mismatch then False else status = 0);
          errors = (if mismatch then pc_errors ctx @ [''Too few selections provided'']
                    else pc_errors ctx)
      in if \<not> bOk \<or> errors \<noteq> [] then
           (if \<not> (\<not> bOk \<and> errors \<noteq> [])
            then Inl (AssertionFailed ''Inconsistent error reporting'')
            else Inl (InvalidInputError (toString errors)))
         else Inr (drop (nat oldCount) (sc_sel (pc_sc ctx))))"

text \<open>
  \<^verbatim>\<open>runParser\<close>: what was printed, the exception or the parsed selections, the collection
  as the call leaves it, and the standard input left.
\<close>

definition runParser ::
    "('p, 'v, 'top, 'pcc, 'sel) yypush_parse \<Rightarrow> (string \<Rightarrow> (token_t \<times> 'v) list) \<Rightarrow> 'p
       \<Rightarrow> string \<Rightarrow> ('v, 'top, 'pcc, 'sel) scanner \<Rightarrow> bool \<Rightarrow> int
       \<Rightarrow> (string list \<times> (gmx_error + 'sel list) \<times> ('top, 'pcc, 'sel) impl \<times> string) option"
where
  "runParser yypush_parse tokenize yypstate_new stdinFile scanner bStdIn maxnr =
     (let oldCount = int (length (sc_sel (lex_sc scanner)))
      in case runParser_parse yypush_parse tokenize yypstate_new stdinFile scanner bStdIn of
           None \<Rightarrow> None
         | Some (r, ctx, out, stdinFile') \<Rightarrow>
             (case r of
                Inl e \<Rightarrow> Some (out, Inl e, pc_sc ctx, stdinFile')
              | Inr status \<Rightarrow>
                  Some (out, runParser_finish oldCount maxnr status ctx, pc_sc ctx,
                        stdinFile')))"

text \<open>\<^verbatim>\<open>parseFromStdin\<close> and \<^verbatim>\<open>parseFromString\<close>.\<close>

definition parseFromStdin ::
    "('p, 'v, 'top, 'pcc, 'sel) yypush_parse \<Rightarrow> (string \<Rightarrow> (token_t \<times> 'v) list) \<Rightarrow> 'p
       \<Rightarrow> string \<Rightarrow> int \<Rightarrow> bool \<Rightarrow> ('top, 'pcc, 'sel) impl
       \<Rightarrow> (string list \<times> (gmx_error + 'sel list) \<times> ('top, 'pcc, 'sel) impl \<times> string) option"
where
  "parseFromStdin yypush_parse tokenize yypstate_new stdinFile nr bInteractive s =
     runParser yypush_parse tokenize yypstate_new stdinFile
       \<lparr>lex_sc = s, lex_interactive = bInteractive, lex_input = []\<rparr> True nr"

definition parseFromString ::
    "('p, 'v, 'top, 'pcc, 'sel) yypush_parse \<Rightarrow> (string \<Rightarrow> (token_t \<times> 'v) list) \<Rightarrow> 'p
       \<Rightarrow> string \<Rightarrow> string \<Rightarrow> ('top, 'pcc, 'sel) impl
       \<Rightarrow> (string list \<times> (gmx_error + 'sel list) \<times> ('top, 'pcc, 'sel) impl \<times> string) option"
where
  "parseFromString yypush_parse tokenize yypstate_new stdinFile str s =
     runParser yypush_parse tokenize yypstate_new stdinFile
       \<lparr>lex_sc = s, lex_interactive = False, lex_input = tokenize str\<rparr> False (- 1)"




section \<open>Notions used to state the properties\<close>

text \<open>
  The nodes of a tree and of a forest in the order in which \<^verbatim>\<open>resolveExternalGroups\<close>
  visits them (a node before its children, the children in chain order), each with its
  type, name and payload.
\<close>

fun nodes :: "selelem \<Rightarrow> (e_selelem_t \<times> string \<times> selelem_u) list"
  and nodes_list :: "selelem list \<Rightarrow> (e_selelem_t \<times> string \<times> selelem_u) list" where
  "nodes (SelElem ty nm u ch) = (ty, nm, u) # nodes_list ch"
| "nodes_list [] = []"
| "nodes_list (c # cs) = nodes c @ nodes_list cs"

text \<open>
  A group reference that the group set cannot resolve, and the spec's description of
  resolution at one node: a group reference that can be resolved becomes a constant node
  holding the referenced group and named after it; every other node stays as it is.
\<close>

definition unresolvable ::
    "gmx_ana_indexgrps_t option \<Rightarrow> e_selelem_t \<times> string \<times> selelem_u \<Rightarrow> bool" where
  "unresolvable grps n = (fst n = SEL_GROUPREF \<and> gref_lookup grps (snd (snd n)) = None)"

definition spec_resolved ::
    "gmx_ana_indexgrps_t option \<Rightarrow> e_selelem_t \<times> string \<times> selelem_u
       \<Rightarrow> e_selelem_t \<times> string \<times> selelem_u" where
  "spec_resolved grps n =
     (if fst n = SEL_GROUPREF then
        (case gref_lookup grps (snd (snd n)) of
           Some g \<Rightarrow> (SEL_CONST, grp_name g, U_cgrp g)
         | None \<Rightarrow> n)
      else n)"

definition has_groupref :: "selelem \<Rightarrow> bool" where
  "has_groupref t = list_ex (\<lambda>n. fst n = SEL_GROUPREF) (nodes t)"

text \<open>
  Modelled from the spec: \<^verbatim>\<open>PositionCalculationCollection::typeFromEnum\<close> and the
  enumeration \<^verbatim>\<open>typeEnumValues\<close> (\<^verbatim>\<open>poscalc.cpp\<close>, not among the sources), used where a
  property is evaluated on an example. The position types are a fixed enumeration (atom,
  residue and molecule centres, with whole, partial and dynamic variants); a residue
  centre is of type \<^verbatim>\<open>POS_RES\<close>, a molecule centre of type \<^verbatim>\<open>POS_MOL\<close>, and a name
  outside the enumeration makes the function throw.
\<close>

definition typeEnumValues :: "(string \<times> e_poscalc_t) list" where
  "typeEnumValues =
     [(''atom'', POS_ATOM),
      (''res_com'', POS_RES), (''res_cog'', POS_RES),
      (''mol_com'', POS_MOL), (''mol_cog'', POS_MOL),
      (''whole_res_com'', POS_RES), (''whole_res_cog'', POS_RES),
      (''whole_mol_com'', POS_MOL), (''whole_mol_cog'', POS_MOL),
      (''part_res_com'', POS_RES), (''part_res_cog'', POS_RES),
      (''part_mol_com'', POS_MOL), (''part_mol_cog'', POS_MOL),
      (''dyn_res_com'', POS_RES), (''dyn_res_cog'', POS_RES),
      (''dyn_mol_com'', POS_MOL), (''dyn_mol_cog'', POS_MOL)]"

definition typeFromEnum_spec :: "string \<Rightarrow> gmx_error + e_poscalc_t" where
  "typeFromEnum_spec post =
     (case map_of typeEnumValues post of
        Some t \<Rightarrow> Inr t
      | None \<Rightarrow> Inl (InternalError ''Unknown position calculation type''))"

text \<open>
  Examples: a set of index groups with the one group \<open>groupA\<close>, a selection that is a
  root over a reference to the group of a given name, and a collection as constructed,
  holding given roots.
\<close>

definition ex_groups :: gmx_ana_indexgrps_t where
  "ex_groups = [Index_group ''groupA'' [2, 7, 9]]"

definition ex_selection :: "string \<Rightarrow> selelem" where
  "ex_selection name =
     SelElem SEL_ROOT name U_other [SelElem SEL_GROUPREF [] (U_gref (Some name) 0) []]"

definition ex_collection :: "selelem list \<Rightarrow> (unit, unit, unit) impl" where
  "ex_collection roots = (Impl_init ())\<lparr>sc_root := roots\<rparr>"

text \<open>
  The spec's description of what reaches the parser. In the line-based mode a separator
  that follows a separator is suppressed, and the tokens end with the line:
  \<open>spec_suppress\<close> gives the tokens that are pushed, from the last token pushed and the
  tokens of the line. \<open>spec_push_tokens\<close> pushes the tokens of a list one after the other
  for as long as the parser asks for more.
\<close>

fun spec_suppress :: "token_t \<Rightarrow> (token_t \<times> 'v) list \<Rightarrow> (token_t \<times> 'v) list" where
  "spec_suppress prev [] = []"
| "spec_suppress prev ((token, v) # rest) =
     (if token = EOF_TOKEN then []
      else if prev = CMD_SEP \<and> token = CMD_SEP then spec_suppress prev rest
      else (token, v) # spec_suppress token rest)"

fun spec_push_tokens ::
    "('p, 'v, 'top, 'pcc, 'sel) yypush_parse \<Rightarrow> (token_t \<times> 'v) list \<Rightarrow> 'p
       \<Rightarrow> ('top, 'pcc, 'sel) parse_ctx \<Rightarrow> int \<times> 'p \<times> ('top, 'pcc, 'sel) parse_ctx" where
  "spec_push_tokens yypush_parse [] parserState ctx = (YYPUSH_MORE, parserState, ctx)"
| "spec_push_tokens yypush_parse ((token, v) # rest) parserState ctx =
     (case yypush_parse parserState token (Some v) ctx of
        (status, parserState', ctx') \<Rightarrow>
          if status = YYPUSH_MORE then spec_push_tokens yypush_parse rest parserState' ctx'
          else (status, parserState', ctx'))"

text \<open>
  Examples of parsers. The first only records the tokens pushed to it and accepts at the
  end of the input. The second does the same but keeps the record where a parse call
  shows it, as the selections of the collection. The third takes a token
  \<open>OTHER_TOKEN n\<close> with \<open>0 \<le> n\<close> for a
  selection, which it adds to the collection, and one with \<open>n < 0\<close> for a syntax error,
  which it reports; at the end of the input it accepts if no error is held by the
  collector and aborts otherwise.
\<close>

definition ex_recording_parser :: "(token_t list, 'v, 'top, 'pcc, 'sel) yypush_parse" where
  "ex_recording_parser parserState token v ctx =
     (if token = EOF_TOKEN then 0 else YYPUSH_MORE, parserState @ [token], ctx)"

definition ex_logging_parser :: "(unit, 'v, 'top, 'pcc, token_t) yypush_parse" where
  "ex_logging_parser parserState token v ctx =
     (if token = EOF_TOKEN then 0 else YYPUSH_MORE, parserState,
      ctx\<lparr>pc_sc := (pc_sc ctx)\<lparr>sc_sel := sc_sel (pc_sc ctx) @ [token]\<rparr>\<rparr>)"


text \<open>
  An example of a tokenizer, one token a character: a semicolon or a newline is a
  separator, a question mark a token that the second parser takes for a syntax error, and
  any other character the token of its code.
\<close>

definition ex_tokenize :: "string \<Rightarrow> (token_t \<times> unit) list" where
  "ex_tokenize str =
     map (\<lambda>c. (if c = CHR '';'' \<or> c = CHR 0x0A then CMD_SEP
                else if c = CHR ''?'' then OTHER_TOKEN (- 1)
                else OTHER_TOKEN (of_char c), ())) str"

definition ex_ctx :: "(unit, unit, int) parse_ctx" where
  "ex_ctx = \<lparr>pc_sc = Impl_init (), pc_errors = [], pc_exception = None\<rparr>"

section \<open>Properties\<close>


subsection \<open>Resolution of group references\<close>

text \<open>
  What \<^verbatim>\<open>resolveExternalGroups\<close> does to the nodes, which errors it collects, and which
  trees it leaves alone.
\<close>

lemma resolve_nodes:
  "nodes (fst (resolveExternalGroups grps t e)) = map (spec_resolved grps) (nodes t)"
  "nodes_list (fst (resolve_children grps ts e)) = map (spec_resolved grps) (nodes_list ts)"
proof (induction grps t e and grps ts e rule: resolveExternalGroups_resolve_children.induct)
  case (1 grps ty nm u ch errors)
  then show ?case
    by (auto simp: spec_resolved_def case_prod_beta split: option.splits)
next
  case (2 grps errors)
  show ?case by simp
next
  case (3 grps c cs errors)
  from 3(2)[OF refl prod.collapse] 3(1)
  show ?case by (simp add: case_prod_beta)
qed

lemma resolve_errors:
  "snd (resolveExternalGroups grps t e) =
     e @ map (\<lambda>n. unknown_group_msg) (filter (unresolvable grps) (nodes t))"
  "snd (resolve_children grps ts e) =
     e @ map (\<lambda>n. unknown_group_msg) (filter (unresolvable grps) (nodes_list ts))"
proof (induction grps t e and grps ts e rule: resolveExternalGroups_resolve_children.induct)
  case (1 grps ty nm u ch errors)
  then show ?case
    by (auto simp: unresolvable_def case_prod_beta split: option.splits)
next
  case (2 grps errors)
  show ?case by simp
next
  case (3 grps c cs errors)
  from 3(2)[OF refl prod.collapse] 3(1)
  show ?case by (simp add: case_prod_beta)
qed

lemma resolve_unchanged:
  "\<forall>n \<in> set (nodes t). fst n = SEL_GROUPREF \<longrightarrow> unresolvable grps n
     \<Longrightarrow> fst (resolveExternalGroups grps t e) = t"
  "\<forall>n \<in> set (nodes_list ts). fst n = SEL_GROUPREF \<longrightarrow> unresolvable grps n
     \<Longrightarrow> fst (resolve_children grps ts e) = ts"
proof (induction grps t e and grps ts e rule: resolveExternalGroups_resolve_children.induct)
  case (1 grps ty nm u ch errors)
  then show ?case
    by (auto simp: unresolvable_def case_prod_beta split: option.splits)
next
  case (2 grps errors)
  show ?case by simp
next
  case (3 grps c cs errors)
  from 3(2)[OF refl prod.collapse] 3(1) 3(3)
  show ?case by (simp add: case_prod_beta)
qed

lemma resolve_children_length: "length (fst (resolve_children grps ts e)) = length ts"
  by (induction ts arbitrary: e) (auto simp: case_prod_beta)

lemma resolve_children_nth:
  "i < length ts \<Longrightarrow>
     \<exists>e'. fst (resolve_children grps ts e) ! i = fst (resolveExternalGroups grps (ts ! i) e')"
proof (induction ts arbitrary: e i)
  case Nil
  then show ?case by simp
next
  case (Cons t ts)
  show ?case
  proof (cases i)
    case 0
    then show ?thesis by (auto simp: case_prod_beta intro: exI[of _ e])
  next
    case (Suc j)
    with Cons.prems have "j < length ts" by simp
    from Cons.IH[OF this, of "snd (resolveExternalGroups grps t e)"] Suc
    show ?thesis by (auto simp: case_prod_beta)
  qed
qed

lemma spec_resolved_not_groupref:
  "\<not> unresolvable grps n \<Longrightarrow> fst (spec_resolved grps n) \<noteq> SEL_GROUPREF"
  by (auto simp: spec_resolved_def unresolvable_def split: option.splits)

lemma resolve_children_no_groupref:
  assumes "\<forall>n \<in> set (nodes_list ts). fst n \<noteq> SEL_GROUPREF"
  shows "resolve_children grps ts e = (ts, e)"
proof -
  from assms have "fst (resolve_children grps ts e) = ts"
    by (intro resolve_unchanged(2)) simp
  moreover from assms have "filter (unresolvable grps) (nodes_list ts) = []"
    by (auto simp: filter_empty_conv unresolvable_def)
  then have "snd (resolve_children grps ts e) = e"
    by (simp add: resolve_errors(2))
  ultimately show ?thesis by (simp add: prod_eq_iff)
qed


lemma nodes_list_set: "set (nodes_list ts) = (\<Union>t \<in> set ts. set (nodes t))"
  by (induction ts) auto

text \<open>The call \<^verbatim>\<open>setIndexGroups(NULL)\<close>: no tree changes and every group reference is reported.\<close>

lemma setIndexGroups_NULL:
  "setIndexGroups None s =
     (if filter (\<lambda>n. fst n = SEL_GROUPREF) (nodes_list (sc_root s)) \<noteq> []
      then Some (InvalidInputError (toString (map (\<lambda>n. unknown_group_msg)
                   (filter (\<lambda>n. fst n = SEL_GROUPREF) (nodes_list (sc_root s))))))
      else None,
      s\<lparr>impl_grps := None, impl_bExternalGroupsSet := True\<rparr>)"
proof -
  have u: "unresolvable None = (\<lambda>n. fst n = SEL_GROUPREF)"
    by (simp add: fun_eq_iff unresolvable_def)
  have "\<forall>n \<in> set (nodes_list (sc_root s)). fst n = SEL_GROUPREF \<longrightarrow> unresolvable None n"
    by (simp add: u)
  from resolve_unchanged(2)[OF this]
  have a: "fst (resolve_children None (sc_root s) []) = sc_root s" .
  have b: "snd (resolve_children None (sc_root s) []) =
             map (\<lambda>n. unknown_group_msg)
               (filter (\<lambda>n. fst n = SEL_GROUPREF) (nodes_list (sc_root s)))"
    by (simp add: resolve_errors(2) u)
  show ?thesis
    by (simp add: setIndexGroups_def case_prod_beta Let_def a b)
qed

text \<open>
  Claim C4. A group reference is converted in place to a constant holding the referenced
  group at most once. A second call of \<^verbatim>\<open>setIndexGroups\<close> with a group set fails its
  precondition and changes nothing. A traversal maps every node as the spec describes:
  a group reference that the group set resolves becomes a constant node, every other
  node, and so a reference whose resolution fails, stays as it is. After a traversal
  that reported no error, a later traversal with any group set changes no node and
  reports nothing.
\<close>

theorem groupref_resolved_at_most_once:
  "fst (setIndexGroups (Some g2) (snd (setIndexGroups (Some g1) s))) =
     Some (AssertionFailed ''Can only set external groups once or clear them afterwards'')
   \<and> snd (setIndexGroups (Some g2) (snd (setIndexGroups (Some g1) s))) =
       snd (setIndexGroups (Some g1) s)
   \<and> nodes_list (fst (resolve_children grps ts e)) = map (spec_resolved grps) (nodes_list ts)
   \<and> (\<forall>n \<in> set (nodes_list ts). unresolvable grps n \<longrightarrow> spec_resolved grps n = n)
   \<and> (snd (resolve_children grps ts []) = [] \<longrightarrow>
        resolve_children grps' (fst (resolve_children grps ts [])) e' =
          (fst (resolve_children grps ts []), e'))"
proof (intro conjI)
  show "fst (setIndexGroups (Some g2) (snd (setIndexGroups (Some g1) s))) =
     Some (AssertionFailed ''Can only set external groups once or clear them afterwards'')"
    by (simp add: setIndexGroups_def case_prod_beta Let_def)
  show "snd (setIndexGroups (Some g2) (snd (setIndexGroups (Some g1) s))) =
     snd (setIndexGroups (Some g1) s)"
    by (simp add: setIndexGroups_def case_prod_beta Let_def)
  show "nodes_list (fst (resolve_children grps ts e)) = map (spec_resolved grps) (nodes_list ts)"
    by (rule resolve_nodes(2))
  show "\<forall>n \<in> set (nodes_list ts). unresolvable grps n \<longrightarrow> spec_resolved grps n = n"
    by (simp add: unresolvable_def spec_resolved_def)
  show "snd (resolve_children grps ts []) = [] \<longrightarrow>
     resolve_children grps' (fst (resolve_children grps ts [])) e' =
       (fst (resolve_children grps ts []), e')"
  proof
    assume "snd (resolve_children grps ts []) = []"
    then have "\<forall>n \<in> set (nodes_list ts). \<not> unresolvable grps n"
      by (simp add: resolve_errors(2) filter_empty_conv)
    then have "\<forall>n \<in> set (nodes_list (fst (resolve_children grps ts []))). fst n \<noteq> SEL_GROUPREF"
      by (simp add: resolve_nodes(2) spec_resolved_not_groupref)
    then show "resolve_children grps' (fst (resolve_children grps ts [])) e' =
       (fst (resolve_children grps ts []), e')"
      by (rule resolve_children_no_groupref)
  qed
qed

theorem groupref_resolved_at_most_once_witness:
  "snd (resolve_children (Some ex_groups) [ex_selection ''groupA''] []) = []
   \<and> resolve_children None (fst (resolve_children (Some ex_groups) [ex_selection ''groupA''] []))
        [] = (fst (resolve_children (Some ex_groups) [ex_selection ''groupA''] []), [])
   \<and> nodes_list (fst (resolve_children (Some ex_groups)
         [ex_selection ''groupA'', ex_selection ''bogus''] [])) =
       [(SEL_ROOT, ''groupA'', U_other),
        (SEL_CONST, ''groupA'', U_cgrp (Index_group ''groupA'' [2, 7, 9])),
        (SEL_ROOT, ''bogus'', U_other),
        (SEL_GROUPREF, [], U_gref (Some ''bogus'') 0)]
   \<and> unresolvable (Some ex_groups) (SEL_GROUPREF, [], U_gref (Some ''bogus'') 0)"
  using groupref_resolved_at_most_once
          [where grps = "Some ex_groups" and ts = "[ex_selection ''groupA'']"
             and grps' = None and e' = "[]"]
        groupref_resolved_at_most_once
          [where grps = "Some ex_groups"
             and ts = "[ex_selection ''groupA'', ex_selection ''bogus'']" and e = "[]"]
  by (simp add: ex_groups_def ex_selection_def gmx_ana_indexgrps_find_def
        spec_resolved_def unresolvable_def)

text \<open>
  Claim C3, as stated, fails: with the groups \<open>groupA\<close> supplied, a collection holding a
  selection that refers to \<open>bogus\<close> and one that refers to \<open>groupA\<close> makes
  \<^verbatim>\<open>setIndexGroups\<close> throw, and the call has turned the reference of the second, valid
  selection into a constant.
\<close>

theorem failed_resolution_counterexample:
  "fst (setIndexGroups (Some ex_groups)
          (ex_collection [ex_selection ''bogus'', ex_selection ''groupA''])) =
     Some (InvalidInputError (toString [unknown_group_msg]))
   \<and> sc_root (snd (setIndexGroups (Some ex_groups)
          (ex_collection [ex_selection ''bogus'', ex_selection ''groupA'']))) =
       [ex_selection ''bogus'',
        SelElem SEL_ROOT ''groupA'' U_other
          [SelElem SEL_CONST ''groupA'' (U_cgrp (Index_group ''groupA'' [2, 7, 9])) []]]
   \<and> sc_root (snd (setIndexGroups (Some ex_groups)
          (ex_collection [ex_selection ''bogus'', ex_selection ''groupA'']))) ! 1
       \<noteq> ex_selection ''groupA''"
  by (simp add: setIndexGroups_def ex_collection_def Impl_init_def ex_selection_def
        ex_groups_def gmx_ana_indexgrps_find_def)

text \<open>
  Claim C3, amended. When some group reference cannot be resolved, \<^verbatim>\<open>setIndexGroups\<close>
  (its precondition met) throws \<^verbatim>\<open>InvalidInputError\<close> with one unknown-group message for each
  such reference, after it has visited every selection: every reference that the group
  set resolves, in whichever selection, has become a constant; the selections stay in
  place, one without a resolvable reference is unchanged, and with the NULL group set
  (the call that \<^verbatim>\<open>compile\<close> makes) no selection is changed.
\<close>

theorem failed_resolution_effect:
  assumes pre: "grps = None \<or> \<not> impl_bExternalGroupsSet s"
    and bad: "\<exists>n \<in> set (nodes_list (sc_root s)). unresolvable grps n"
  shows "fst (setIndexGroups grps s) =
           Some (InvalidInputError (toString (map (\<lambda>n. unknown_group_msg)
                   (filter (unresolvable grps) (nodes_list (sc_root s))))))
         \<and> nodes_list (sc_root (snd (setIndexGroups grps s))) =
             map (spec_resolved grps) (nodes_list (sc_root s))
         \<and> length (sc_root (snd (setIndexGroups grps s))) = length (sc_root s)
         \<and> (\<forall>i < length (sc_root s).
               (\<forall>n \<in> set (nodes (sc_root s ! i)). fst n = SEL_GROUPREF \<longrightarrow> unresolvable grps n)
               \<longrightarrow> sc_root (snd (setIndexGroups grps s)) ! i = sc_root s ! i)
         \<and> (grps = None \<longrightarrow> sc_root (snd (setIndexGroups grps s)) = sc_root s)"
proof -
  let ?r = "resolve_children grps (sc_root s) []"
  from bad have ne: "filter (unresolvable grps) (nodes_list (sc_root s)) \<noteq> []"
    by (auto simp: filter_empty_conv)
  then have errs: "snd ?r \<noteq> []" by (simp add: resolve_errors(2))
  from pre errs have root: "sc_root (snd (setIndexGroups grps s)) = fst ?r"
    by (auto simp: setIndexGroups_def case_prod_beta Let_def)
  from pre errs have "fst (setIndexGroups grps s) = Some (InvalidInputError (toString (snd ?r)))"
    by (auto simp: setIndexGroups_def case_prod_beta Let_def)
  then have c1: "fst (setIndexGroups grps s) =
           Some (InvalidInputError (toString (map (\<lambda>n. unknown_group_msg)
                   (filter (unresolvable grps) (nodes_list (sc_root s))))))"
    by (simp add: resolve_errors(2))
  have c2: "nodes_list (sc_root (snd (setIndexGroups grps s))) =
             map (spec_resolved grps) (nodes_list (sc_root s))"
    by (simp add: root resolve_nodes(2))
  have c3: "length (sc_root (snd (setIndexGroups grps s))) = length (sc_root s)"
    by (simp add: root resolve_children_length)
  have c4: "\<forall>i < length (sc_root s).
               (\<forall>n \<in> set (nodes (sc_root s ! i)). fst n = SEL_GROUPREF \<longrightarrow> unresolvable grps n)
               \<longrightarrow> sc_root (snd (setIndexGroups grps s)) ! i = sc_root s ! i"
  proof (intro allI impI)
    fix i
    assume i: "i < length (sc_root s)"
      and un: "\<forall>n \<in> set (nodes (sc_root s ! i)). fst n = SEL_GROUPREF \<longrightarrow> unresolvable grps n"
    from resolve_children_nth[OF i, of grps "[]"]
    obtain e' where "fst ?r ! i = fst (resolveExternalGroups grps (sc_root s ! i) e')" ..
    with resolve_unchanged(1)[OF un] show "sc_root (snd (setIndexGroups grps s)) ! i = sc_root s ! i"
      by (simp add: root)
  qed
  have c5: "grps = None \<longrightarrow> sc_root (snd (setIndexGroups grps s)) = sc_root s"
  proof
    assume "grps = None"
    then have "\<forall>n \<in> set (nodes_list (sc_root s)). fst n = SEL_GROUPREF \<longrightarrow> unresolvable grps n"
      by (simp add: unresolvable_def)
    from resolve_unchanged(2)[OF this] show "sc_root (snd (setIndexGroups grps s)) = sc_root s"
      by (simp add: root)
  qed
  from c1 c2 c3 c4 c5 show ?thesis by blast
qed

theorem failed_resolution_effect_witness:
  "(Some ex_groups = None
      \<or> \<not> impl_bExternalGroupsSet (ex_collection [ex_selection ''bogus'', ex_selection ''groupA'']))
   \<and> (\<exists>n \<in> set (nodes_list (sc_root (ex_collection [ex_selection ''bogus'', ex_selection ''groupA'']))).
         unresolvable (Some ex_groups) n)
   \<and> fst (setIndexGroups (Some ex_groups)
            (ex_collection [ex_selection ''bogus'', ex_selection ''groupA''])) =
       Some (InvalidInputError (toString [unknown_group_msg]))
   \<and> sc_root (snd (setIndexGroups (Some ex_groups)
            (ex_collection [ex_selection ''bogus'', ex_selection ''groupA'']))) ! 0 =
       ex_selection ''bogus''"
proof -
  let ?s = "ex_collection [ex_selection ''bogus'', ex_selection ''groupA'']"
  have h1: "Some ex_groups = None \<or> \<not> impl_bExternalGroupsSet ?s"
    by (simp add: ex_collection_def Impl_init_def)
  have h2: "\<exists>n \<in> set (nodes_list (sc_root ?s)). unresolvable (Some ex_groups) n"
    by (simp add: ex_collection_def Impl_init_def ex_selection_def unresolvable_def
          ex_groups_def gmx_ana_indexgrps_find_def)
  from failed_resolution_effect[OF h1 h2] h1 h2 show ?thesis
    by (simp add: ex_collection_def Impl_init_def ex_selection_def unresolvable_def
          ex_groups_def gmx_ana_indexgrps_find_def)
qed

subsection \<open>Compilation\<close>

text \<open>
  Claim C2, as stated, fails: with the reference position type \<open>res_com\<close> and no topology,
  the check of the topology comes first, and \<^verbatim>\<open>compile\<close> throws
  \<^verbatim>\<open>InconsistentInputError\<close> for a forest that holds an unresolved group reference.
\<close>

theorem compile_unknown_group_counterexample:
  "\<not> impl_bExternalGroupsSet ((ex_collection [ex_selection ''groupA''])\<lparr>impl_rpost := ''res_com''\<rparr>)
   \<and> list_ex has_groupref (sc_root ((ex_collection [ex_selection ''groupA''])\<lparr>impl_rpost := ''res_com''\<rparr>))
   \<and> compile typeFromEnum_spec (\<lambda>t. False) (\<lambda>s. (None, s)) (\<lambda>p. p)
        ((ex_collection [ex_selection ''groupA''])\<lparr>impl_rpost := ''res_com''\<rparr>) =
       ([], Some (InconsistentInputError
                    ''Selection requires topology information, but none provided''),
        (ex_collection [ex_selection ''groupA''])\<lparr>impl_rpost := ''res_com''\<rparr>)"
  by (simp add: compile_def requiresTopology_def typeFromEnum_spec_def typeEnumValues_def
        ex_collection_def Impl_init_def ex_selection_def has_groupref_def)

text \<open>
  Claim C2, amended. If \<^verbatim>\<open>setIndexGroups\<close> has not been called and the check of the
  topology passes (a topology is attached or \<^verbatim>\<open>requiresTopology\<close> is false), \<^verbatim>\<open>compile\<close>
  resolves the group references against the NULL group set: a forest that holds a group
  reference makes it throw \<^verbatim>\<open>InvalidInputError\<close> with the unknown-group messages, with
  nothing printed, the trees unchanged and the compiler not invoked (the result does not
  depend on it).
\<close>

theorem compile_unknown_group:
  assumes notset: "\<not> impl_bExternalGroupsSet s"
    and gref: "list_ex has_groupref (sc_root s)"
    and topok: "sc_top s \<noteq> None \<or> requiresTopology typeFromEnum requires_top s = Inr False"
  shows "compile typeFromEnum requires_top compiler initEvaluation s =
           ([], Some (InvalidInputError (toString (map (\<lambda>n. unknown_group_msg)
                        (filter (\<lambda>n. fst n = SEL_GROUPREF) (nodes_list (sc_root s)))))),
            s\<lparr>impl_grps := None, impl_bExternalGroupsSet := True\<rparr>)"
proof -
  from gref have "filter (\<lambda>n. fst n = SEL_GROUPREF) (nodes_list (sc_root s)) \<noteq> []"
    by (auto simp: list_ex_iff has_groupref_def nodes_list_set filter_empty_conv)
  with notset topok show ?thesis
    by (auto simp: compile_def setIndexGroups_NULL)
qed

theorem compile_unknown_group_witness:
  "\<not> impl_bExternalGroupsSet (ex_collection [ex_selection ''groupA''])
   \<and> list_ex has_groupref (sc_root (ex_collection [ex_selection ''groupA'']))
   \<and> requiresTopology typeFromEnum_spec (\<lambda>t. False) (ex_collection [ex_selection ''groupA''])
       = Inr False
   \<and> compile typeFromEnum_spec (\<lambda>t. False) (\<lambda>s. (None, s)) (\<lambda>p. p)
        (ex_collection [ex_selection ''groupA'']) =
       ([], Some (InvalidInputError (toString [unknown_group_msg])),
        (ex_collection [ex_selection ''groupA''])
          \<lparr>impl_grps := None, impl_bExternalGroupsSet := True\<rparr>)"
proof -
  let ?s = "ex_collection [ex_selection ''groupA'']"
  have h1: "\<not> impl_bExternalGroupsSet ?s"
    by (simp add: ex_collection_def Impl_init_def)
  have h2: "list_ex has_groupref (sc_root ?s)"
    by (simp add: ex_collection_def Impl_init_def ex_selection_def has_groupref_def)
  have h3: "requiresTopology typeFromEnum_spec (\<lambda>t. False) ?s = Inr False"
    by (simp add: requiresTopology_def ex_collection_def Impl_init_def)
  from compile_unknown_group[OF h1 h2 disjI2, OF h3, of "\<lambda>s. (None, s)" "\<lambda>p. p"] h1 h2 h3
  show ?thesis
    by (simp add: ex_collection_def Impl_init_def ex_selection_def)
qed


text \<open>
  Claim C5. With no topology attached and \<^verbatim>\<open>requiresTopology\<close> true, \<^verbatim>\<open>compile\<close> throws
  \<^verbatim>\<open>InconsistentInputError\<close> at once: nothing is printed, the state is the one it was
  given and the result does not depend on the compiler. With a topology attached, or
  with \<^verbatim>\<open>requiresTopology\<close> false, the check passes: \<^verbatim>\<open>compile\<close> goes on to resolve the
  groups (if they were never set), to print, to run the compiler and to initialise the
  evaluation, and is exactly the result of these steps; an exception that it throws is
  then one of \<^verbatim>\<open>setIndexGroups\<close> or of the compiler. A new collection has no topology, and
  \<^verbatim>\<open>setTopology\<close> with a topology attaches it.
\<close>

theorem compile_missing_topology:
  "(sc_top s = None \<and> requiresTopology typeFromEnum requires_top s = Inr True \<longrightarrow>
      compile typeFromEnum requires_top compiler initEvaluation s =
        ([], Some (InconsistentInputError
                     ''Selection requires topology information, but none provided''), s))
   \<and> (sc_top s \<noteq> None \<or> requiresTopology typeFromEnum requires_top s = Inr False \<longrightarrow>
      compile typeFromEnum requires_top compiler initEvaluation s =
        (case (if \<not> impl_bExternalGroupsSet s then setIndexGroups None s else (None, s)) of
           (Some e, s1) \<Rightarrow> ([], Some e, s1)
         | (None, s1) \<Rightarrow>
             (case compiler s1 of
                (Some e, s2) \<Rightarrow>
                  (if impl_debugLevel s1 \<ge> 1 then printTree False s1 else [], Some e, s2)
              | (None, s2) \<Rightarrow>
                  ((if impl_debugLevel s1 \<ge> 1 then printTree False s1 else [])
                   @ (if impl_debugLevel s2 \<ge> 1
                      then [Text [CHR 0x0A]] @ printTree False s2
                           @ [Text [CHR 0x0A], Poscalc_tree (sc_pcc s2), Text [CHR 0x0A],
                              Poscalc_tree (initEvaluation (sc_pcc s2)), Text [CHR 0x0A]]
                      else []),
                   None, s2\<lparr>sc_pcc := initEvaluation (sc_pcc s2)\<rparr>)))
      \<and> (\<forall>e. fst (snd (compile typeFromEnum requires_top compiler initEvaluation s)) = Some e
             \<longrightarrow> (\<not> impl_bExternalGroupsSet s \<and> fst (setIndexGroups None s) = Some e)
                  \<or> (\<exists>s1. fst (compiler s1) = Some e)))
   \<and> sc_top (Impl_init pcc0 :: ('top, 'pcc, 'sel) impl) = None
   \<and> setTopology atoms_nr pcc_setTopology (Some t) natoms s =
       (None, s\<lparr>sc_gall := (if natoms \<le> 0 then atoms_nr t else natoms),
                 sc_pcc := pcc_setTopology (Some t) (sc_pcc s), sc_top := Some t\<rparr>)"
proof (intro conjI impI)
  assume "sc_top s = None \<and> requiresTopology typeFromEnum requires_top s = Inr True"
  then show "compile typeFromEnum requires_top compiler initEvaluation s =
        ([], Some (InconsistentInputError
                     ''Selection requires topology information, but none provided''), s)"
    by (simp add: compile_def)
next
  assume a: "sc_top s \<noteq> None \<or> requiresTopology typeFromEnum requires_top s = Inr False"
  then have chk: "(if sc_top s = None then requiresTopology typeFromEnum requires_top s
                   else Inr False) = Inr False"
    by auto
  show eq: "compile typeFromEnum requires_top compiler initEvaluation s =
        (case (if \<not> impl_bExternalGroupsSet s then setIndexGroups None s else (None, s)) of
           (Some e, s1) \<Rightarrow> ([], Some e, s1)
         | (None, s1) \<Rightarrow>
             (case compiler s1 of
                (Some e, s2) \<Rightarrow>
                  (if impl_debugLevel s1 \<ge> 1 then printTree False s1 else [], Some e, s2)
              | (None, s2) \<Rightarrow>
                  ((if impl_debugLevel s1 \<ge> 1 then printTree False s1 else [])
                   @ (if impl_debugLevel s2 \<ge> 1
                      then [Text [CHR 0x0A]] @ printTree False s2
                           @ [Text [CHR 0x0A], Poscalc_tree (sc_pcc s2), Text [CHR 0x0A],
                              Poscalc_tree (initEvaluation (sc_pcc s2)), Text [CHR 0x0A]]
                      else []),
                   None, s2\<lparr>sc_pcc := initEvaluation (sc_pcc s2)\<rparr>)))"
    unfolding compile_def chk
    by (simp add: Let_def split: prod.splits option.splits)
  show "\<forall>e. fst (snd (compile typeFromEnum requires_top compiler initEvaluation s)) = Some e
             \<longrightarrow> (\<not> impl_bExternalGroupsSet s \<and> fst (setIndexGroups None s) = Some e)
                  \<or> (\<exists>s1. fst (compiler s1) = Some e)"
  proof (intro allI impI)
    fix e
    assume t: "fst (snd (compile typeFromEnum requires_top compiler initEvaluation s)) = Some e"
    obtain r1 s1 where g: "(if \<not> impl_bExternalGroupsSet s then setIndexGroups None s
                            else (None, s)) = (r1, s1)"
      by (cases "if \<not> impl_bExternalGroupsSet s then setIndexGroups None s else (None, s)")
    show "(\<not> impl_bExternalGroupsSet s \<and> fst (setIndexGroups None s) = Some e)
                  \<or> (\<exists>s1. fst (compiler s1) = Some e)"
    proof (cases r1)
      case (Some e1)
      with g t eq have "e1 = e" by simp
      with g Some show ?thesis by (auto split: if_splits)
    next
      case None
      obtain r2 s2 where c: "compiler s1 = (r2, s2)" by (cases "compiler s1")
      with g None t eq have "r2 = Some e" by (cases r2) simp_all
      with c have "fst (compiler s1) = Some e" by simp
      then show ?thesis by blast
    qed
  qed
next
  show "sc_top (Impl_init pcc0 :: ('top, 'pcc, 'sel) impl) = None"
    by (simp add: Impl_init_def)
next
  show "setTopology atoms_nr pcc_setTopology (Some t) natoms s =
       (None, s\<lparr>sc_gall := (if natoms \<le> 0 then atoms_nr t else natoms),
                 sc_pcc := pcc_setTopology (Some t) (sc_pcc s), sc_top := Some t\<rparr>)"
    by (simp add: setTopology_def)
qed

theorem compile_missing_topology_witness:
  "sc_top ((ex_collection [])\<lparr>impl_spost := ''res_cog''\<rparr>) = None
   \<and> requiresTopology typeFromEnum_spec (\<lambda>sel. False)
        ((ex_collection [])\<lparr>impl_spost := ''res_cog''\<rparr>) = Inr True
   \<and> compile typeFromEnum_spec (\<lambda>sel. False) (\<lambda>s. (None, s)) (\<lambda>p. p)
        ((ex_collection [])\<lparr>impl_spost := ''res_cog''\<rparr>) =
       ([], Some (InconsistentInputError
                    ''Selection requires topology information, but none provided''),
        (ex_collection [])\<lparr>impl_spost := ''res_cog''\<rparr>)
   \<and> sc_top ((ex_collection [SelElem SEL_ROOT ''a'' U_other [], SelElem SEL_ROOT ''b'' U_other []])
          \<lparr>impl_spost := ''res_cog'', sc_top := Some ()\<rparr>) \<noteq> None
   \<and> compile typeFromEnum_spec (\<lambda>sel. True) (\<lambda>s. (None, s)) (\<lambda>p. p)
        ((ex_collection [SelElem SEL_ROOT ''a'' U_other [], SelElem SEL_ROOT ''b'' U_other []])
          \<lparr>impl_spost := ''res_cog'', sc_top := Some ()\<rparr>) =
       ([], None,
        (ex_collection [SelElem SEL_ROOT ''a'' U_other [], SelElem SEL_ROOT ''b'' U_other []])
          \<lparr>impl_spost := ''res_cog'', sc_top := Some (), impl_bExternalGroupsSet := True\<rparr>)
   \<and> requiresTopology typeFromEnum_spec (\<lambda>sel. False)
        (ex_collection [SelElem SEL_ROOT ''a'' U_other []]) = Inr False
   \<and> compile typeFromEnum_spec (\<lambda>sel. False) (\<lambda>s. (None, s)) (\<lambda>p. p)
        (ex_collection [SelElem SEL_ROOT ''a'' U_other []]) =
       ([], None,
        (ex_collection [SelElem SEL_ROOT ''a'' U_other []])\<lparr>impl_bExternalGroupsSet := True\<rparr>)"
proof -
  let ?s = "(ex_collection [])\<lparr>impl_spost := ''res_cog''\<rparr>"
  let ?t = "(ex_collection [SelElem SEL_ROOT ''a'' U_other [], SelElem SEL_ROOT ''b'' U_other []])
          \<lparr>impl_spost := ''res_cog'', sc_top := Some ()\<rparr>"
  let ?u = "ex_collection [SelElem SEL_ROOT ''a'' U_other []]"
  have h1: "sc_top ?s = None \<and> requiresTopology typeFromEnum_spec (\<lambda>sel. False) ?s = Inr True"
    by (simp add: requiresTopology_def typeFromEnum_spec_def typeEnumValues_def
          ex_collection_def Impl_init_def)
  have h2: "sc_top ?t \<noteq> None \<or> requiresTopology typeFromEnum_spec (\<lambda>sel. True) ?t = Inr False"
    by (simp add: ex_collection_def Impl_init_def)
  have h3: "requiresTopology typeFromEnum_spec (\<lambda>sel. False) ?u = Inr False"
    by (simp add: requiresTopology_def ex_collection_def Impl_init_def)
  then have h3': "sc_top ?u \<noteq> None \<or> requiresTopology typeFromEnum_spec (\<lambda>sel. False) ?u = Inr False"
    by simp
  note i1 = compile_missing_topology[where s = "?s" and typeFromEnum = typeFromEnum_spec
         and requires_top = "\<lambda>sel. False" and compiler = "\<lambda>s. (None, s)"
         and initEvaluation = "\<lambda>p. p" and ?pcc0.0 = "()" and atoms_nr = "\<lambda>t. 0"
         and pcc_setTopology = "\<lambda>t p. p" and t = "()" and natoms = 1]
  note i2 = compile_missing_topology[where s = "?t" and typeFromEnum = typeFromEnum_spec
         and requires_top = "\<lambda>sel. True" and compiler = "\<lambda>s. (None, s)"
         and initEvaluation = "\<lambda>p. p" and ?pcc0.0 = "()" and atoms_nr = "\<lambda>t. 0"
         and pcc_setTopology = "\<lambda>t p. p" and t = "()" and natoms = 1]
  note i3 = compile_missing_topology[where s = "?u" and typeFromEnum = typeFromEnum_spec
         and requires_top = "\<lambda>sel. False" and compiler = "\<lambda>s. (None, s)"
         and initEvaluation = "\<lambda>p. p" and ?pcc0.0 = "()" and atoms_nr = "\<lambda>t. 0"
         and pcc_setTopology = "\<lambda>t p. p" and t = "()" and natoms = 1]
  from i1[THEN conjunct1] h1
  have r1: "compile typeFromEnum_spec (\<lambda>sel. False) (\<lambda>s. (None, s)) (\<lambda>p. p) ?s =
       ([], Some (InconsistentInputError
                    ''Selection requires topology information, but none provided''), ?s)"
    by (rule mp)
  note e2 = i2[THEN conjunct2, THEN conjunct1, THEN mp, OF h2, THEN conjunct1]
  have r2: "compile typeFromEnum_spec (\<lambda>sel. True) (\<lambda>s. (None, s)) (\<lambda>p. p) ?t =
       ([], None, ?t\<lparr>impl_bExternalGroupsSet := True\<rparr>)"
    by (subst e2) (simp add: setIndexGroups_def ex_collection_def Impl_init_def)
  note e3 = i3[THEN conjunct2, THEN conjunct1, THEN mp, OF h3', THEN conjunct1]
  have r3: "compile typeFromEnum_spec (\<lambda>sel. False) (\<lambda>s. (None, s)) (\<lambda>p. p) ?u =
       ([], None, ?u\<lparr>impl_bExternalGroupsSet := True\<rparr>)"
    by (subst e3) (simp add: setIndexGroups_def ex_collection_def Impl_init_def)
  have t1: "sc_top ?s = None" and t2: "sc_top ?t \<noteq> None"
    by (simp_all add: ex_collection_def Impl_init_def)
  have q1: "requiresTopology typeFromEnum_spec (\<lambda>sel. False) ?s = Inr True"
    using h1 by (rule conjunct2)
  from t1 q1 r1 t2 r2 h3 r3 show ?thesis by (intro conjI)
qed

text \<open>
  Claim C6. With the stored position types valid (each empty or accepted by
  \<^verbatim>\<open>typeFromEnum\<close>, which the setters and the options guarantee), \<^verbatim>\<open>requiresTopology\<close>
  returns true exactly when the reference position type is not empty and not of the atom
  type, or the output position type is not empty and not of the atom type, or some tree
  of the forest requires a topology.
\<close>

theorem requiresTopology_iff:
  assumes "impl_rpost s = [] \<or> (\<exists>t. typeFromEnum (impl_rpost s) = Inr t)"
    and "impl_spost s = [] \<or> (\<exists>t. typeFromEnum (impl_spost s) = Inr t)"
  shows "requiresTopology typeFromEnum requires_top s =
           Inr ((impl_rpost s \<noteq> [] \<and> typeFromEnum (impl_rpost s) \<noteq> Inr POS_ATOM)
                \<or> (impl_spost s \<noteq> [] \<and> typeFromEnum (impl_spost s) \<noteq> Inr POS_ATOM)
                \<or> (\<exists>sel \<in> set (sc_root s). requires_top sel))"
  using assms by (auto simp: requiresTopology_def list_ex_iff)

theorem requiresTopology_iff_witness:
  "requiresTopology typeFromEnum_spec (\<lambda>sel. False)
     ((ex_collection [])\<lparr>impl_rpost := ''atom'', impl_spost := ''atom''\<rparr>) = Inr False
   \<and> requiresTopology typeFromEnum_spec (\<lambda>sel. False)
     ((ex_collection [])\<lparr>impl_rpost := ''atom'', impl_spost := ''mol_cog''\<rparr>) = Inr True
   \<and> requiresTopology typeFromEnum_spec (\<lambda>sel. el_type sel = SEL_ROOT)
     (ex_collection [ex_selection ''groupA'']) = Inr True"
proof -
  have a: "typeFromEnum_spec ''atom'' = Inr POS_ATOM"
    and m: "typeFromEnum_spec ''mol_cog'' = Inr POS_MOL"
    by (simp_all add: typeFromEnum_spec_def typeEnumValues_def)
  let ?s1 = "(ex_collection [])\<lparr>impl_rpost := ''atom'', impl_spost := ''atom''\<rparr>"
  let ?s2 = "(ex_collection [])\<lparr>impl_rpost := ''atom'', impl_spost := ''mol_cog''\<rparr>"
  let ?s3 = "ex_collection [ex_selection ''groupA'']"
  have r1: "impl_rpost ?s1 = [] \<or> (\<exists>t. typeFromEnum_spec (impl_rpost ?s1) = Inr t)"
    and p1: "impl_spost ?s1 = [] \<or> (\<exists>t. typeFromEnum_spec (impl_spost ?s1) = Inr t)"
    and r2: "impl_rpost ?s2 = [] \<or> (\<exists>t. typeFromEnum_spec (impl_rpost ?s2) = Inr t)"
    and p2: "impl_spost ?s2 = [] \<or> (\<exists>t. typeFromEnum_spec (impl_spost ?s2) = Inr t)"
    and r3: "impl_rpost ?s3 = [] \<or> (\<exists>t. typeFromEnum_spec (impl_rpost ?s3) = Inr t)"
    and p3: "impl_spost ?s3 = [] \<or> (\<exists>t. typeFromEnum_spec (impl_spost ?s3) = Inr t)"
    by (simp_all add: a m ex_collection_def Impl_init_def)
  from requiresTopology_iff[OF r1 p1, of "\<lambda>sel. False"]
       requiresTopology_iff[OF r2 p2, of "\<lambda>sel. False"]
       requiresTopology_iff[OF r3 p3, of "\<lambda>sel. el_type sel = SEL_ROOT"]
  show ?thesis
    by (simp add: a m ex_collection_def Impl_init_def ex_selection_def)
qed

text \<open>The ways in which \<^verbatim>\<open>compile\<close> ends, with what it has printed by then.\<close>

lemma compile_cases:
  fixes s :: "('top, 'pcc, 'sel) impl"
  defines "s1 \<equiv> (if \<not> impl_bExternalGroupsSet s
                  then s\<lparr>impl_grps := None, impl_bExternalGroupsSet := True\<rparr> else s)"
  shows "(\<exists>e. compile typeFromEnum requires_top compiler initEvaluation s = ([], Some e, s))
     \<or> (\<exists>e. compile typeFromEnum requires_top compiler initEvaluation s = ([], Some e, s1))
     \<or> (\<exists>e. compile typeFromEnum requires_top compiler initEvaluation s =
           (if 1 \<le> impl_debugLevel s then printTree False s else [], Some e, snd (compiler s1)))
     \<or> compile typeFromEnum requires_top compiler initEvaluation s =
           ((if 1 \<le> impl_debugLevel s then printTree False s else [])
            @ (if 1 \<le> impl_debugLevel (snd (compiler s1))
               then [Text [CHR 0x0A]] @ printTree False (snd (compiler s1))
                    @ [Text [CHR 0x0A], Poscalc_tree (sc_pcc (snd (compiler s1))),
                       Text [CHR 0x0A],
                       Poscalc_tree (initEvaluation (sc_pcc (snd (compiler s1)))),
                       Text [CHR 0x0A]]
               else []),
            None, (snd (compiler s1))\<lparr>sc_pcc := initEvaluation (sc_pcc (snd (compiler s1)))\<rparr>)"
proof -
  let ?chk = "if sc_top s = None then requiresTopology typeFromEnum requires_top s else Inr False"
  let ?sig = "if \<not> impl_bExternalGroupsSet s then setIndexGroups None s else (None, s)"
  have sig: "snd ?sig = s1" by (simp add: s1_def setIndexGroups_NULL)
  have pt: "printTree False s1 = printTree False s" by (simp add: s1_def printTree_def)
  have dl: "impl_debugLevel s1 = impl_debugLevel s" by (simp add: s1_def)
  show ?thesis
  proof (cases ?chk)
    case (Inl e)
    then have "compile typeFromEnum requires_top compiler initEvaluation s = ([], Some e, s)"
      by (simp add: compile_def)
    then show ?thesis by blast
  next
    case (Inr needs)
    show ?thesis
    proof (cases needs)
      case True
      with Inr have "compile typeFromEnum requires_top compiler initEvaluation s =
          ([], Some (InconsistentInputError
                   ''Selection requires topology information, but none provided''), s)"
        by (simp add: compile_def)
      then show ?thesis by blast
    next
      case False
      show ?thesis
      proof (cases "fst ?sig")
        case (Some e)
        with sig have "?sig = (Some e, s1)" by (simp add: prod_eq_iff)
        with Inr False
        have "compile typeFromEnum requires_top compiler initEvaluation s = ([], Some e, s1)"
          by (simp add: compile_def)
        then show ?thesis by blast
      next
        case None
        with sig have eq: "?sig = (None, s1)" by (simp add: prod_eq_iff)
        obtain r2 s2 where c: "compiler s1 = (r2, s2)" by (cases "compiler s1")
        show ?thesis
        proof (cases r2)
          case (Some e)
          with Inr False eq c pt dl
          have "compile typeFromEnum requires_top compiler initEvaluation s =
             (if 1 \<le> impl_debugLevel s then printTree False s else [], Some e,
              snd (compiler s1))"
            by (simp add: compile_def)
          then show ?thesis by blast
        next
          case None
          with Inr False eq c pt dl
          have "compile typeFromEnum requires_top compiler initEvaluation s =
           ((if 1 \<le> impl_debugLevel s then printTree False s else [])
            @ (if 1 \<le> impl_debugLevel (snd (compiler s1))
               then [Text [CHR 0x0A]] @ printTree False (snd (compiler s1))
                    @ [Text [CHR 0x0A], Poscalc_tree (sc_pcc (snd (compiler s1))),
                       Text [CHR 0x0A],
                       Poscalc_tree (initEvaluation (sc_pcc (snd (compiler s1)))),
                       Text [CHR 0x0A]]
               else []),
            None, (snd (compiler s1))\<lparr>sc_pcc := initEvaluation (sc_pcc (snd (compiler s1)))\<rparr>)"
            by (simp add: compile_def Let_def)
          then show ?thesis by blast
        qed
      qed
    qed
  qed
qed

text \<open>
  Claim C9. The debug level being what the compiler and the evaluator leave it: at a
  level below 1 \<^verbatim>\<open>compile\<close> prints nothing; at a level of at least 1 a call that
  completes has printed the forest before the compilation and after it, both without
  values, and then the position calculations; \<^verbatim>\<open>evaluate\<close> prints the forest, with
  values, exactly when the level is at least 3 and the evaluation completed.
\<close>

theorem debug_tree_dumps:
  assumes comp: "\<And>x. impl_debugLevel (snd (compiler x)) = impl_debugLevel x"
    and eval: "\<And>x. impl_debugLevel (snd (evaluator x fr pbc)) = impl_debugLevel x"
  shows "(impl_debugLevel s < 1 \<longrightarrow>
            fst (compile typeFromEnum requires_top compiler initEvaluation s) = [])
         \<and> (1 \<le> impl_debugLevel s
              \<and> snd (compile typeFromEnum requires_top compiler initEvaluation s) = (None, s')
            \<longrightarrow> (\<exists>pcc. sc_pcc s' = initEvaluation pcc
                   \<and> fst (compile typeFromEnum requires_top compiler initEvaluation s) =
                       printTree False s @ [Text [CHR 0x0A]] @ printTree False s'
                         @ [Text [CHR 0x0A], Poscalc_tree pcc, Text [CHR 0x0A],
                            Poscalc_tree (sc_pcc s'), Text [CHR 0x0A]]))
         \<and> fst (evaluate initFrame evaluator fr pbc s) =
             (if 3 \<le> impl_debugLevel s \<and> fst (snd (evaluate initFrame evaluator fr pbc s)) = None
              then [Text [CHR 0x0A]] @ printTree True (snd (snd (evaluate initFrame evaluator fr pbc s)))
              else [])"
proof -
  define s1 where "s1 = (if \<not> impl_bExternalGroupsSet s
                  then s\<lparr>impl_grps := None, impl_bExternalGroupsSet := True\<rparr> else s)"
  define s2 where "s2 = snd (compiler s1)"
  let ?c = "compile typeFromEnum requires_top compiler initEvaluation s"
  have dl2: "impl_debugLevel s2 = impl_debugLevel s"
    using comp[of s1] by (simp add: s2_def s1_def)
  note cc = compile_cases[of typeFromEnum requires_top compiler initEvaluation s,
      folded s1_def, folded s2_def, unfolded dl2]
  have low: "impl_debugLevel s < 1 \<longrightarrow> fst ?c = []"
  proof
    assume "impl_debugLevel s < 1"
    then have "\<not> 1 \<le> impl_debugLevel s" by simp
    with cc show "fst ?c = []" by auto
  qed
  have high: "1 \<le> impl_debugLevel s \<and> snd ?c = (None, s')
            \<longrightarrow> (\<exists>pcc. sc_pcc s' = initEvaluation pcc
                   \<and> fst ?c =
                       printTree False s @ [Text [CHR 0x0A]] @ printTree False s'
                         @ [Text [CHR 0x0A], Poscalc_tree pcc, Text [CHR 0x0A],
                            Poscalc_tree (sc_pcc s'), Text [CHR 0x0A]])"
  proof
    assume a: "1 \<le> impl_debugLevel s \<and> snd ?c = (None, s')"
    with cc have full: "?c =
           (printTree False s @ [Text [CHR 0x0A]] @ printTree False s2
                    @ [Text [CHR 0x0A], Poscalc_tree (sc_pcc s2), Text [CHR 0x0A],
                       Poscalc_tree (initEvaluation (sc_pcc s2)), Text [CHR 0x0A]],
            None, s2\<lparr>sc_pcc := initEvaluation (sc_pcc s2)\<rparr>)"
      by auto
    with a have s': "s' = s2\<lparr>sc_pcc := initEvaluation (sc_pcc s2)\<rparr>" by simp
    have "printTree False s2 = printTree False s'"
      by (simp add: s' printTree_def)
    with full s' show "\<exists>pcc. sc_pcc s' = initEvaluation pcc
                   \<and> fst ?c =
                       printTree False s @ [Text [CHR 0x0A]] @ printTree False s'
                         @ [Text [CHR 0x0A], Poscalc_tree pcc, Text [CHR 0x0A],
                            Poscalc_tree (sc_pcc s'), Text [CHR 0x0A]]"
      by (intro exI[of _ "sc_pcc s2"]) simp
  qed
  have ev: "fst (evaluate initFrame evaluator fr pbc s) =
             (if 3 \<le> impl_debugLevel s \<and> fst (snd (evaluate initFrame evaluator fr pbc s)) = None
              then [Text [CHR 0x0A]] @ printTree True (snd (snd (evaluate initFrame evaluator fr pbc s)))
              else [])"
  proof -
    obtain r e2 where e: "evaluator (s\<lparr>sc_pcc := initFrame (sc_pcc s)\<rparr>) fr pbc = (r, e2)"
      by (cases "evaluator (s\<lparr>sc_pcc := initFrame (sc_pcc s)\<rparr>) fr pbc")
    from eval[of "s\<lparr>sc_pcc := initFrame (sc_pcc s)\<rparr>"] e
    have "impl_debugLevel e2 = impl_debugLevel s" by simp
    with e show ?thesis
      by (cases r) (simp_all add: evaluate_def Let_def)
  qed
  from low high ev show ?thesis by blast
qed

theorem debug_tree_dumps_witness:
  "fst (compile typeFromEnum_spec (\<lambda>sel. False) (\<lambda>s. (None, s)) (\<lambda>p. p)
          ((ex_collection [SelElem SEL_ROOT ''all'' U_other []])\<lparr>impl_debugLevel := 0\<rparr>)) = []
   \<and> fst (compile typeFromEnum_spec (\<lambda>sel. False) (\<lambda>s. (None, s)) (\<lambda>p. p)
          ((ex_collection [SelElem SEL_ROOT ''all'' U_other []])\<lparr>impl_debugLevel := 1\<rparr>)) =
       [Selelem_tree (SelElem SEL_ROOT ''all'' U_other []) False 0, Text [CHR 0x0A],
        Selelem_tree (SelElem SEL_ROOT ''all'' U_other []) False 0, Text [CHR 0x0A],
        Poscalc_tree (), Text [CHR 0x0A], Poscalc_tree (), Text [CHR 0x0A]]
   \<and> fst (evaluate (\<lambda>p. p) (\<lambda>s fr pbc. (None, s)) () ()
          ((ex_collection [SelElem SEL_ROOT ''all'' U_other []])\<lparr>impl_debugLevel := 2\<rparr>)) = []
   \<and> fst (evaluate (\<lambda>p. p) (\<lambda>s fr pbc. (None, s)) () ()
          ((ex_collection [SelElem SEL_ROOT ''all'' U_other []])\<lparr>impl_debugLevel := 3\<rparr>)) =
       [Text [CHR 0x0A], Selelem_tree (SelElem SEL_ROOT ''all'' U_other []) True 0]"
proof -
  let ?s = "\<lambda>n. (ex_collection [SelElem SEL_ROOT ''all'' U_other []])\<lparr>impl_debugLevel := n\<rparr>"
  let ?s' = "(ex_collection [SelElem SEL_ROOT ''all'' U_other []])
               \<lparr>impl_debugLevel := 1, impl_bExternalGroupsSet := True\<rparr>"
  have c: "\<And>x :: (unit, unit, unit) impl. impl_debugLevel (snd ((\<lambda>s. (None, s)) x)) = impl_debugLevel x"
    by simp
  have e: "\<And>x :: (unit, unit, unit) impl.
      impl_debugLevel (snd ((\<lambda>s fr pbc. (None, s)) x () ())) = impl_debugLevel x"
    by simp
  have ok: "snd (compile typeFromEnum_spec (\<lambda>sel. False) (\<lambda>s. (None, s)) (\<lambda>p. p) (?s 1)) =
      (None, ?s')"
    by (simp add: compile_def requiresTopology_def setIndexGroups_def ex_collection_def
          Impl_init_def)
  from debug_tree_dumps[of "\<lambda>s. (None, s)" "\<lambda>s fr pbc. (None, s)" "()" "()" "?s 0"
          typeFromEnum_spec "\<lambda>sel. False" "\<lambda>p. p" "?s'" "\<lambda>p. p", OF c e]
       debug_tree_dumps[of "\<lambda>s. (None, s)" "\<lambda>s fr pbc. (None, s)" "()" "()" "?s 1"
          typeFromEnum_spec "\<lambda>sel. False" "\<lambda>p. p" "?s'" "\<lambda>p. p", OF c e]
       debug_tree_dumps[of "\<lambda>s. (None, s)" "\<lambda>s fr pbc. (None, s)" "()" "()" "?s 2"
          typeFromEnum_spec "\<lambda>sel. False" "\<lambda>p. p" "?s'" "\<lambda>p. p", OF c e]
       debug_tree_dumps[of "\<lambda>s. (None, s)" "\<lambda>s fr pbc. (None, s)" "()" "()" "?s 3"
          typeFromEnum_spec "\<lambda>sel. False" "\<lambda>p. p" "?s'" "\<lambda>p. p", OF c e]
       ok
  show ?thesis
    by (simp add: evaluate_def printTree_def ex_collection_def Impl_init_def)
qed

subsection \<open>Default position types\<close>

text \<open>
  Claim C10. \<^verbatim>\<open>setReferencePosType\<close> and \<^verbatim>\<open>setOutputPosType\<close> check the name with
  \<^verbatim>\<open>typeFromEnum\<close> before they store it: for a name that it rejects the call throws and
  leaves the state, for a name that it accepts the stored default becomes that name.
\<close>

theorem set_pos_type_validated:
  "(typeFromEnum t = Inl e \<longrightarrow>
      setReferencePosType typeFromEnum (Some t) s = (Some e, s)
      \<and> setOutputPosType typeFromEnum (Some t) s = (Some e, s))
   \<and> (typeFromEnum t = Inr ty \<longrightarrow>
      setReferencePosType typeFromEnum (Some t) s = (None, s\<lparr>impl_rpost := t\<rparr>)
      \<and> setOutputPosType typeFromEnum (Some t) s = (None, s\<lparr>impl_spost := t\<rparr>))"
  by (simp add: setReferencePosType_def setOutputPosType_def)

theorem set_pos_type_validated_witness:
  "typeFromEnum_spec ''bogus'' = Inl (InternalError ''Unknown position calculation type'')
   \<and> setReferencePosType typeFromEnum_spec (Some ''bogus'') (ex_collection []) =
       (Some (InternalError ''Unknown position calculation type''), ex_collection [])
   \<and> setOutputPosType typeFromEnum_spec (Some ''bogus'') (ex_collection []) =
       (Some (InternalError ''Unknown position calculation type''), ex_collection [])
   \<and> typeFromEnum_spec ''res_com'' = Inr POS_RES
   \<and> setReferencePosType typeFromEnum_spec (Some ''res_com'') (ex_collection []) =
       (None, (ex_collection [])\<lparr>impl_rpost := ''res_com''\<rparr>)
   \<and> setOutputPosType typeFromEnum_spec (Some ''res_com'') (ex_collection []) =
       (None, (ex_collection [])\<lparr>impl_spost := ''res_com''\<rparr>)"
proof -
  have h1: "typeFromEnum_spec ''bogus'' = Inl (InternalError ''Unknown position calculation type'')"
    by (simp add: typeFromEnum_spec_def typeEnumValues_def)
  have h2: "typeFromEnum_spec ''res_com'' = Inr POS_RES"
    by (simp add: typeFromEnum_spec_def typeEnumValues_def)
  from set_pos_type_validated[of typeFromEnum_spec "''bogus''" _ "ex_collection []"]
       set_pos_type_validated[of typeFromEnum_spec "''res_com''" _ "ex_collection []" POS_RES]
       h1 h2
  show ?thesis by simp
qed


subsection \<open>Reading a selection line\<close>

lemma readLine_split_line:
  "CHR 0x0A \<notin> set q \<Longrightarrow> readLine_split (q @ CHR 0x0A # rest) = (q @ [CHR 0x0A], rest)"
  by (induction q) auto

lemma readLine_line:
  "CHR 0x0A \<notin> set q \<Longrightarrow> readLine (q @ CHR 0x0A # rest) = (True, q @ [CHR 0x0A], rest)"
  by (simp add: readLine_def readLine_split_line)

lemma endsWith_append: "endsWith (xs @ ys) ys"
  by (simp add: endsWith_def)

lemma endsWith_snoc: "endsWith (xs @ [c]) (ys @ [c]) = endsWith xs ys"
  by (auto simp: endsWith_def Suc_diff_le)

lemma endsWith_snoc_neq: "c \<noteq> d \<Longrightarrow> \<not> endsWith (xs @ [c]) (ys @ [d])"
  by (auto simp: endsWith_def Suc_diff_le)

lemma promptLine_while_stop:
  "\<not> endsWith line [CHR 0x5C, CHR 0x0A] \<Longrightarrow>
     promptLine_while b infile line out = (infile, line, out)"
  by (subst promptLine_while.simps) simp

lemma promptLine_while_step:
  "CHR 0x0A \<notin> set q \<Longrightarrow>
     promptLine_while b (q @ CHR 0x0A # rest) (acc @ [CHR 0x5C, CHR 0x0A]) out =
       promptLine_while b rest (acc @ q @ [CHR 0x0A]) (if b then out @ [''... ''] else out)"
  using endsWith_append[of acc "[CHR 0x5C, CHR 0x0A]"]
  by (subst promptLine_while.simps) (simp add: readLine_line)

lemma promptLine_while_continued:
  assumes "\<forall>p \<in> set ps. CHR 0x0A \<notin> set p" and "CHR 0x0A \<notin> set q"
    and "\<not> endsWith (acc @ concat ps @ q) [CHR 0x5C]"
  shows "promptLine_while b
           (concat (map (\<lambda>p. p @ [CHR 0x5C, CHR 0x0A]) ps) @ q @ CHR 0x0A # rest)
           (acc @ [CHR 0x5C, CHR 0x0A]) out =
         (rest, acc @ concat ps @ q @ [CHR 0x0A],
          if b then out @ replicate (Suc (length ps)) ''... '' else out)"
  using assms
proof (induction ps arbitrary: acc out)
  case Nil
  then have "\<not> endsWith ((acc @ q) @ [CHR 0x0A]) ([CHR 0x5C] @ [CHR 0x0A])"
    by (simp only: endsWith_snoc) simp
  then have "\<not> endsWith (acc @ q @ [CHR 0x0A]) [CHR 0x5C, CHR 0x0A]" by simp
  with Nil show ?case
    by (simp add: promptLine_while_step promptLine_while_stop)
next
  case (Cons p ps)
  from Cons.prems have nl: "CHR 0x0A \<notin> set (p @ [CHR 0x5C])" by simp
  have "promptLine_while b
           (concat (map (\<lambda>p. p @ [CHR 0x5C, CHR 0x0A]) (p # ps)) @ q @ CHR 0x0A # rest)
           (acc @ [CHR 0x5C, CHR 0x0A]) out =
        promptLine_while b
           (concat (map (\<lambda>p. p @ [CHR 0x5C, CHR 0x0A]) ps) @ q @ CHR 0x0A # rest)
           ((acc @ p) @ [CHR 0x5C, CHR 0x0A]) (if b then out @ [''... ''] else out)"
    using promptLine_while_step[OF nl, of b
        "concat (map (\<lambda>p. p @ [CHR 0x5C, CHR 0x0A]) ps) @ q @ CHR 0x0A # rest" acc out]
    by simp
  also have "\<dots> = (rest, (acc @ p) @ concat ps @ q @ [CHR 0x0A],
          if b then (if b then out @ [''... ''] else out) @ replicate (Suc (length ps)) ''... ''
          else (if b then out @ [''... ''] else out))"
    using Cons.prems by (intro Cons.IH) simp_all
  finally show ?case by (simp add: replicate_append_same)
qed


lemma promptLine_while_flag:
  "fst (promptLine_while b f l out) = fst (promptLine_while b' f l out')
   \<and> fst (snd (promptLine_while b f l out)) = fst (snd (promptLine_while b' f l out'))"
proof (induction b f l out arbitrary: out' rule: promptLine_while.induct)
  case (1 bInteractive infile line out)
  show ?case
  proof (cases "endsWith line [CHR 0x5C, CHR 0x0A]")
    case False
    then show ?thesis by (simp add: promptLine_while_stop)
  next
    case True
    obtain ok buffer infile' where r: "readLine infile = (ok, buffer, infile')"
      by (cases "readLine infile") auto
    from "1.IH"[OF True r[symmetric] refl, of "if b' then out' @ [''... ''] else out'"]
    show ?thesis
      using True r
      by (subst (1 2) promptLine_while.simps, subst (3 4) promptLine_while.simps) simp
  qed
qed

lemma readLine_split_last:
  "CHR 0x0A \<notin> set q \<Longrightarrow> readLine_split q = (q, [])"
  by (induction q) auto

lemma endsWith_no_newline:
  "CHR 0x0A \<notin> set x \<Longrightarrow> \<not> endsWith x [CHR 0x5C, CHR 0x0A]"
proof
  assume n: "CHR 0x0A \<notin> set x" and e: "endsWith x [CHR 0x5C, CHR 0x0A]"
  from e have "x = take (length x - 2) x @ [CHR 0x5C, CHR 0x0A]"
    by (metis append_take_drop_id endsWith_def length_Cons list.size(3) numeral_2_eq_2)
  then have "CHR 0x0A \<in> set x"
    by (metis in_set_conv_decomp append_assoc append_Cons append_Nil)
  with n show False by simp
qed

lemma promptLine_while_eof:
  assumes "\<forall>p \<in> set ps. CHR 0x0A \<notin> set p" and "CHR 0x0A \<notin> set q"
    and "CHR 0x0A \<notin> set acc"
  shows "promptLine_while b
           (concat (map (\<lambda>p. p @ [CHR 0x5C, CHR 0x0A]) ps) @ q)
           (acc @ [CHR 0x5C, CHR 0x0A]) out =
         ([], acc @ concat ps @ q,
          if b then out @ replicate (Suc (length ps)) ''... '' else out)"
  using assms
proof (induction ps arbitrary: acc out)
  case Nil
  have e: "endsWith (acc @ [CHR 0x5C, CHR 0x0A]) [CHR 0x5C, CHR 0x0A]"
    by (rule endsWith_append)
  from Nil have "CHR 0x0A \<notin> set (acc @ q)" by simp
  then have s: "\<not> endsWith (acc @ q) [CHR 0x5C, CHR 0x0A]" by (rule endsWith_no_newline)
  from Nil have r: "readLine q = (q \<noteq> [], q, [])"
    by (simp add: readLine_def readLine_split_last)
  show ?case
    using e by (subst promptLine_while.simps) (simp add: r promptLine_while_stop[OF s])
next
  case (Cons p ps)
  from Cons.prems have nl: "CHR 0x0A \<notin> set (p @ [CHR 0x5C])" by simp
  have "promptLine_while b
           (concat (map (\<lambda>p. p @ [CHR 0x5C, CHR 0x0A]) (p # ps)) @ q)
           (acc @ [CHR 0x5C, CHR 0x0A]) out =
        promptLine_while b
           (concat (map (\<lambda>p. p @ [CHR 0x5C, CHR 0x0A]) ps) @ q)
           ((acc @ p) @ [CHR 0x5C, CHR 0x0A]) (if b then out @ [''... ''] else out)"
    using promptLine_while_step[OF nl, of b
        "concat (map (\<lambda>p. p @ [CHR 0x5C, CHR 0x0A]) ps) @ q" acc out]
    by simp
  also have "\<dots> = ([], (acc @ p) @ concat ps @ q,
          if b then (if b then out @ [''... ''] else out) @ replicate (Suc (length ps)) ''... ''
          else (if b then out @ [''... ''] else out))"
    using Cons.prems by (intro Cons.IH) simp_all
  finally show ?case by (simp add: replicate_append_same)
qed

lemma endsWith_no_newline1:
  "CHR 0x0A \<notin> set x \<Longrightarrow> \<not> endsWith x [CHR 0x0A]"
proof
  assume n: "CHR 0x0A \<notin> set x" and e: "endsWith x [CHR 0x0A]"
  from e have "x = take (length x - 1) x @ [CHR 0x0A]"
    by (metis append_take_drop_id endsWith_def length_Cons list.size(3) One_nat_def)
  then have "CHR 0x0A \<in> set x"
    by (metis in_set_conv_decomp)
  with n show False by simp
qed

text \<open>
  The line that \<^verbatim>\<open>promptLine\<close> hands out and the input it leaves do not depend on
  \<^verbatim>\<open>bInteractive\<close>: the interactive and the piped source are read alike. For an input
  that starts with lines \<open>ps\<close>, each ended by a backslash and a newline, and a last line
  \<open>q\<close> ended by a newline, one call reads all of them and yields the lines joined, with
  every backslash-newline pair and the final newline stripped, provided the joined text
  does not itself end in a backslash. The same holds when the input ends after \<open>q\<close>
  without a newline, or right after a continuation.
\<close>

lemma promptLine_regular:
  "(case promptLine True infile of (ok, line, left, out) \<Rightarrow> (ok, line, left)) =
     (case promptLine False infile of (ok, line, left, out) \<Rightarrow> (ok, line, left))
   \<and> ((\<forall>p \<in> set ps. CHR 0x0A \<notin> set p) \<and> CHR 0x0A \<notin> set q
        \<and> \<not> endsWith (concat ps @ q) [CHR 0x5C]
      \<longrightarrow> promptLine bInteractive
            (concat (map (\<lambda>p. p @ [CHR 0x5C, CHR 0x0A]) ps) @ q @ CHR 0x0A # rest) =
          (True, concat ps @ q, rest,
           if bInteractive then ''> '' # replicate (length ps) ''... '' else []))
   \<and> ((\<forall>p \<in> set ps. CHR 0x0A \<notin> set p) \<and> CHR 0x0A \<notin> set q \<and> (ps \<noteq> [] \<or> q \<noteq> [])
      \<longrightarrow> promptLine bInteractive
            (concat (map (\<lambda>p. p @ [CHR 0x5C, CHR 0x0A]) ps) @ q) =
          (True, concat ps @ q, [],
           if bInteractive then ''> '' # replicate (length ps) ''... '' @ [ [CHR 0x0A] ] else []))"
proof (intro conjI impI)
  obtain ok line f1 where r: "readLine infile = (ok, line, f1)"
    by (cases "readLine infile") auto
  obtain f2 l2 o2 where t: "promptLine_while True f1 line [''> ''] = (f2, l2, o2)"
    by (cases "promptLine_while True f1 line [''> '']") auto
  obtain f3 l3 o3 where f: "promptLine_while False f1 line [] = (f3, l3, o3)"
    by (cases "promptLine_while False f1 line []") auto
  from promptLine_while_flag[of True f1 line "[''> '']" False "[]"] t f
  have "f2 = f3" "l2 = l3" by simp_all
  with r t f
  show "(case promptLine True infile of (ok, line, left, out) \<Rightarrow> (ok, line, left)) =
     (case promptLine False infile of (ok, line, left, out) \<Rightarrow> (ok, line, left))"
    by (simp add: promptLine_def)
next
  assume a: "(\<forall>p \<in> set ps. CHR 0x0A \<notin> set p) \<and> CHR 0x0A \<notin> set q
        \<and> \<not> endsWith (concat ps @ q) [CHR 0x5C]"
  let ?out0 = "if bInteractive then [''> ''] else []"
  show "promptLine bInteractive
            (concat (map (\<lambda>p. p @ [CHR 0x5C, CHR 0x0A]) ps) @ q @ CHR 0x0A # rest) =
          (True, concat ps @ q, rest,
           if bInteractive then ''> '' # replicate (length ps) ''... '' else [])"
  proof (cases ps)
    case Nil
    from a Nil have "\<not> endsWith (q @ [CHR 0x0A]) ([CHR 0x5C] @ [CHR 0x0A])"
      by (simp only: endsWith_snoc) simp
    then have "\<not> endsWith (q @ [CHR 0x0A]) [CHR 0x5C, CHR 0x0A]" by simp
    then have "promptLine_while bInteractive rest (q @ [CHR 0x0A]) ?out0 =
        (rest, q @ [CHR 0x0A], ?out0)"
      by (rule promptLine_while_stop)
    moreover have "endsWith (q @ [CHR 0x0A]) [CHR 0x0A]" by (rule endsWith_append)
    ultimately show ?thesis
      using a Nil by (simp add: promptLine_def readLine_line)
  next
    case (Cons p ps')
    from a Cons have nl: "CHR 0x0A \<notin> set (p @ [CHR 0x5C])" by simp
    let ?rest' = "concat (map (\<lambda>p. p @ [CHR 0x5C, CHR 0x0A]) ps') @ q @ CHR 0x0A # rest"
    have rl: "readLine (concat (map (\<lambda>p. p @ [CHR 0x5C, CHR 0x0A]) ps) @ q @ CHR 0x0A # rest) =
        (True, p @ [CHR 0x5C, CHR 0x0A], ?rest')"
      using readLine_line[OF nl, of ?rest'] Cons by simp
    have w: "promptLine_while bInteractive ?rest' (p @ [CHR 0x5C, CHR 0x0A]) ?out0 =
         (rest, p @ concat ps' @ q @ [CHR 0x0A],
          if bInteractive then ?out0 @ replicate (Suc (length ps')) ''... '' else ?out0)"
      using a Cons by (intro promptLine_while_continued) simp_all
    have e: "endsWith ((p @ concat ps' @ q) @ [CHR 0x0A]) [CHR 0x0A]" by (rule endsWith_append)
    from rl w e show ?thesis
      using Cons by (simp add: promptLine_def)
  qed
next
  assume a: "(\<forall>p \<in> set ps. CHR 0x0A \<notin> set p) \<and> CHR 0x0A \<notin> set q \<and> (ps \<noteq> [] \<or> q \<noteq> [])"
  let ?out0 = "if bInteractive then [''> ''] else []"
  from a have "CHR 0x0A \<notin> set (concat ps @ q)" by auto
  then have nn: "\<not> endsWith (concat ps @ q) [CHR 0x0A]" by (rule endsWith_no_newline1)
  show "promptLine bInteractive
            (concat (map (\<lambda>p. p @ [CHR 0x5C, CHR 0x0A]) ps) @ q) =
          (True, concat ps @ q, [],
           if bInteractive then ''> '' # replicate (length ps) ''... '' @ [ [CHR 0x0A] ] else [])"
  proof (cases ps)
    case Nil
    with a have q: "q \<noteq> []" by simp
    from a have s: "\<not> endsWith q [CHR 0x5C, CHR 0x0A]" by (intro endsWith_no_newline) simp
    from a q have r: "readLine q = (True, q, [])"
      by (simp add: readLine_def readLine_split_last)
    from nn Nil have "\<not> endsWith q [CHR 0x0A]" by simp
    with r show ?thesis
      using Nil by (simp add: promptLine_def promptLine_while_stop[OF s])
  next
    case (Cons p ps')
    from a Cons have nl: "CHR 0x0A \<notin> set (p @ [CHR 0x5C])" by simp
    let ?rest' = "concat (map (\<lambda>p. p @ [CHR 0x5C, CHR 0x0A]) ps') @ q"
    have rl: "readLine (concat (map (\<lambda>p. p @ [CHR 0x5C, CHR 0x0A]) ps) @ q) =
        (True, p @ [CHR 0x5C, CHR 0x0A], ?rest')"
      using readLine_line[OF nl, of ?rest'] Cons by simp
    have w: "promptLine_while bInteractive ?rest' (p @ [CHR 0x5C, CHR 0x0A]) ?out0 =
         ([], p @ concat ps' @ q,
          if bInteractive then ?out0 @ replicate (Suc (length ps')) ''... '' else ?out0)"
      using a Cons by (intro promptLine_while_eof) simp_all
    from nn Cons have e: "\<not> endsWith (p @ concat ps' @ q) [CHR 0x0A]" by simp
    from rl w e show ?thesis
      using Cons by (simp add: promptLine_def)
  qed
qed

lemma promptLine_regular_example:
  "CHR 0x0A \<notin> set ''resname RA '' \<and> CHR 0x0A \<notin> set ''RB''
   \<and> \<not> endsWith (concat [''resname RA ''] @ ''RB'') [CHR 0x5C]
   \<and> promptLine False (''resname RA '' @ [CHR 0x5C, CHR 0x0A] @ ''RB'' @ [CHR 0x0A] @ ''name CA'') =
       (True, ''resname RA RB'', ''name CA'', [])
   \<and> promptLine True (''resname RA '' @ [CHR 0x5C, CHR 0x0A] @ ''RB'' @ [CHR 0x0A] @ ''name CA'') =
       (True, ''resname RA RB'', ''name CA'', [''> '', ''... ''])
   \<and> promptLine True (''resname RA '' @ [CHR 0x5C, CHR 0x0A] @ ''RB'') =
       (True, ''resname RA RB'', '''', [''> '', ''... '', [CHR 0x0A]])"
proof -
  have h: "(\<forall>p \<in> set [''resname RA ''] . CHR 0x0A \<notin> set p) \<and> CHR 0x0A \<notin> set ''RB''
   \<and> \<not> endsWith (concat [''resname RA ''] @ ''RB'') [CHR 0x5C]"
    by (simp add: endsWith_def)
  from promptLine_regular[of _ "[''resname RA '']" "''RB''" False "''name CA''"]
       promptLine_regular[of _ "[''resname RA '']" "''RB''" True "''name CA''"] h
  show ?thesis by simp
qed

text \<open>
  Claim C8 is what \<^verbatim>\<open>promptLine\<close> is written to do (it is documented as reading the
  continuing lines in one call), and the code misses a case: the text joined so far ends
  in a backslash and the line that follows is empty. The loop of \<^verbatim>\<open>promptLine\<close> tests
  the accumulated line, not the line just read: for the input \<open>a\<close>, backslash,
  backslash, newline, an
  empty line, then \<open>b\<close>, the first line is continued by the empty line, which leaves
  \<open>a\<close> and a backslash; with the newline of the empty line this backslash, which is
  content, is taken for one more continuation, so it is stripped and the line \<open>b\<close>,
  which continues nothing, is read too. The call yields \<open>ab\<close> where the claim, and the
  description of the function as reading the continuing lines, give \<open>a\<close> with the
  backslash, and leave \<open>b\<close> to the next call. This holds for both values of
  \<^verbatim>\<open>bInteractive\<close>.
\<close>

theorem promptLine_content_backslash:
  "promptLine False (''a'' @ [CHR 0x5C, CHR 0x5C, CHR 0x0A] @ [CHR 0x0A] @ ''b'' @ [CHR 0x0A]
                       @ ''rest'') =
     (True, ''ab'', ''rest'', [])
   \<and> promptLine True (''a'' @ [CHR 0x5C, CHR 0x5C, CHR 0x0A] @ [CHR 0x0A] @ ''b'' @ [CHR 0x0A]
                       @ ''rest'') =
     (True, ''ab'', ''rest'', [''> '', ''... '', ''... ''])
   \<and> promptLine False (''a'' @ [CHR 0x5C, CHR 0x5C, CHR 0x0A] @ [CHR 0x0A] @ ''b'' @ [CHR 0x0A]
                       @ ''rest'') \<noteq>
     (True, ''a'' @ [CHR 0x5C], ''b'' @ [CHR 0x0A] @ ''rest'', [])"
proof -
  have w: "promptLine_while b ([CHR 0x0A] @ ''b'' @ [CHR 0x0A] @ ''rest'')
             (''a'' @ [CHR 0x5C, CHR 0x5C, CHR 0x0A]) out =
           (''rest'', ''ab'' @ [CHR 0x0A],
            if b then out @ [''... '', ''... ''] else out)" for b out
  proof -
    have "promptLine_while b ([] @ CHR 0x0A # (''b'' @ [CHR 0x0A] @ ''rest''))
             ((''a'' @ [CHR 0x5C]) @ [CHR 0x5C, CHR 0x0A]) out =
          promptLine_while b (''b'' @ [CHR 0x0A] @ ''rest'')
             ((''a'' @ [CHR 0x5C]) @ [] @ [CHR 0x0A]) (if b then out @ [''... ''] else out)"
      by (rule promptLine_while_step) simp
    moreover have "promptLine_while b (''b'' @ CHR 0x0A # ''rest'')
             (''a'' @ [CHR 0x5C, CHR 0x0A]) (if b then out @ [''... ''] else out) =
          promptLine_while b ''rest'' (''a'' @ ''b'' @ [CHR 0x0A])
             (if b then (if b then out @ [''... ''] else out) @ [''... '']
              else (if b then out @ [''... ''] else out))"
      by (rule promptLine_while_step) simp
    moreover have "promptLine_while b ''rest'' (''a'' @ ''b'' @ [CHR 0x0A]) out' =
          (''rest'', ''a'' @ ''b'' @ [CHR 0x0A], out')" for out'
      by (rule promptLine_while_stop) (simp add: endsWith_def)
    ultimately show ?thesis by simp
  qed
  have r: "readLine (''a'' @ [CHR 0x5C, CHR 0x5C, CHR 0x0A] @ [CHR 0x0A] @ ''b'' @ [CHR 0x0A]
                       @ ''rest'') =
      (True, ''a'' @ [CHR 0x5C, CHR 0x5C, CHR 0x0A], [CHR 0x0A] @ ''b'' @ [CHR 0x0A] @ ''rest'')"
    by (simp add: readLine_def)
  have e: "endsWith (''ab'' @ [CHR 0x0A]) [CHR 0x0A]" by (rule endsWith_append)
  have f: "promptLine False (''a'' @ [CHR 0x5C, CHR 0x5C, CHR 0x0A] @ [CHR 0x0A] @ ''b''
             @ [CHR 0x0A] @ ''rest'') = (True, ''ab'', ''rest'', [])"
    unfolding promptLine_def r using w[of False "[]"] e by simp
  have t: "promptLine True (''a'' @ [CHR 0x5C, CHR 0x5C, CHR 0x0A] @ [CHR 0x0A] @ ''b''
             @ [CHR 0x0A] @ ''rest'') = (True, ''ab'', ''rest'', [''> '', ''... '', ''... ''])"
    unfolding promptLine_def r using w[of True "[''> '']"] e by simp
  from f have n: "promptLine False (''a'' @ [CHR 0x5C, CHR 0x5C, CHR 0x0A] @ [CHR 0x0A] @ ''b''
             @ [CHR 0x0A] @ ''rest'') \<noteq> (True, ''a'' @ [CHR 0x5C], ''b'' @ [CHR 0x0A] @ ''rest'', [])"
    by simp
  from f t n show ?thesis by (intro conjI)
qed

subsection \<open>Parsing\<close>

text \<open>What the loop of \<^verbatim>\<open>runParserLoop\<close> pushes to the parser in its two modes.\<close>

lemma runParserLoop_do_interactive:
  "runParserLoop_do yypush_parse True input prevToken parserState ctx =
     Some (spec_push_tokens yypush_parse (spec_suppress prevToken input) parserState ctx)"
proof (induction input arbitrary: prevToken parserState ctx)
  case Nil
  show ?case by (subst runParserLoop_do.simps) (simp add: yylex_def)
next
  case (Cons tv input)
  obtain token v where tv: "tv = (token, v)" by (cases tv)
  obtain status parserState' ctx' where
    p: "yypush_parse parserState token (Some v) ctx = (status, parserState', ctx')"
    by (cases "yypush_parse parserState token (Some v) ctx") auto
  show ?case
    by (subst runParserLoop_do.simps) (simp add: yylex_def tv p Cons.IH)
qed

lemma runParserLoop_do_batch:
  "runParserLoop_do yypush_parse False input prevToken parserState ctx =
     (case spec_push_tokens yypush_parse input parserState ctx of
        (status, parserState', ctx') \<Rightarrow>
          if status = YYPUSH_MORE
          then runParserLoop_do yypush_parse False [] prevToken parserState' ctx'
          else Some (status, parserState', ctx'))"
proof (induction input arbitrary: parserState ctx)
  case Nil
  show ?case by simp
next
  case (Cons tv input)
  obtain token v where tv: "tv = (token, v)" by (cases tv)
  obtain status parserState' ctx' where
    p: "yypush_parse parserState token (Some v) ctx = (status, parserState', ctx')"
    by (cases "yypush_parse parserState token (Some v) ctx") auto
  show ?case
    by (subst runParserLoop_do.simps) (simp add: yylex_def tv p Cons.IH)
qed

lemma runParserLoop_do_eof:
  "fst (yypush_parse parserState EOF_TOKEN None ctx) \<noteq> YYPUSH_MORE \<Longrightarrow>
     runParserLoop_do yypush_parse False [] prevToken parserState ctx =
       Some (yypush_parse parserState EOF_TOKEN None ctx)"
  by (subst runParserLoop_do.simps) (simp add: yylex_def case_prod_beta)

lemma parseFromString_via_tokens:
  assumes "spec_push_tokens yypush_parse (tokenize str) yypstate_new
             \<lparr>pc_sc = s, pc_errors = [], pc_exception = None\<rparr> = (YYPUSH_MORE, ps1, ctx1)"
    and "yypush_parse ps1 EOF_TOKEN None ctx1 = (status, ps2, ctx2)"
    and "status \<noteq> YYPUSH_MORE"
  shows "runParser_parse yypush_parse tokenize yypstate_new stdinFile
           \<lparr>lex_sc = s, lex_interactive = False, lex_input = tokenize str\<rparr> False =
         Some (rethrow_exception_if_occurred ctx2 status, ctx2, [], stdinFile)"
proof -
  from assms(2,3) have "fst (yypush_parse ps1 EOF_TOKEN None ctx1) \<noteq> YYPUSH_MORE" by simp
  with runParserLoop_do_eof[of yypush_parse ps1 ctx1 EOF_TOKEN] assms(2)
  have e: "runParserLoop_do yypush_parse False [] EOF_TOKEN ps1 ctx1 = Some (status, ps2, ctx2)"
    by simp
  have "runParserLoop_do yypush_parse False (tokenize str) EOF_TOKEN yypstate_new
          \<lparr>pc_sc = s, pc_errors = [], pc_exception = None\<rparr> = Some (status, ps2, ctx2)"
    by (subst runParserLoop_do_batch) (simp add: assms(1) e)
  then show ?thesis
    by (simp add: runParser_parse_def runParserLoop_def)
qed

text \<open>
  Claim C7, as stated, fails for the string mode: \<^verbatim>\<open>parseFromString\<close> and
  \<^verbatim>\<open>parseFromFile\<close> run \<^verbatim>\<open>runParserLoop\<close> with \<^verbatim>\<open>bInteractive\<close> false, where the test for
  an empty command is skipped. Two consecutive separators are both pushed to the parser,
  followed by the end of the input.
\<close>

theorem empty_command_suppression_counterexample:
  "runParserLoop ex_recording_parser False [(CMD_SEP, ()), (CMD_SEP, ())] [] ex_ctx =
     Some (Inr 0, [CMD_SEP, CMD_SEP, EOF_TOKEN], ex_ctx)"
proof -
  have "runParserLoop_do ex_recording_parser False [(CMD_SEP, ()), (CMD_SEP, ())] EOF_TOKEN
          [] ex_ctx = Some (0, [CMD_SEP, CMD_SEP, EOF_TOKEN], ex_ctx)"
    by (subst runParserLoop_do_batch)
       (simp add: runParserLoop_do_eof ex_recording_parser_def YYPUSH_MORE_def)
  then show ?thesis
    by (simp add: runParserLoop_def rethrow_exception_if_occurred_def ex_ctx_def)
qed

text \<open>Parsing the standard input when it is empty, a lone separator, or two lines.\<close>

lemma promptLine_empty:
  "promptLine b [] = (False, [], [], if b then [''> ''] else [])"
  by (simp add: promptLine_def readLine_def)

lemma promptLine_one:
  assumes "CHR 0x0A \<notin> set line" and "\<not> endsWith line [CHR 0x5C]"
  shows "promptLine b (line @ [CHR 0x0A]) = (True, line, [], if b then [''> ''] else [])"
  using promptLine_regular[of _ "[]" line b "[]"] assms by simp

lemma runParser_while_eof:
  assumes "yypush_parse parserState EOF_TOKEN None ctx = (status, ps', ctx')"
  shows "runParser_while yypush_parse tokenize b [] parserState ctx out =
           Some (rethrow_exception_if_occurred ctx' status, ctx',
                 out @ (if b then [''> ''] else []), [])"
  by (subst runParser_while.simps) (simp add: promptLine_empty assms)

lemma parseFromStdin_empty:
  assumes "yypush_parse yypstate_new EOF_TOKEN None
             \<lparr>pc_sc = s, pc_errors = [], pc_exception = None\<rparr> =
           (0, ps1, \<lparr>pc_sc = s, pc_errors = [], pc_exception = None\<rparr>)"
    and "nr \<le> 0"
  shows "parseFromStdin yypush_parse tokenize yypstate_new [] nr b s =
           Some (if b then [''> ''] else [], Inr [], s, [])"
proof -
  note e = runParser_while_eof[where yypush_parse = yypush_parse
      and parserState = yypstate_new
      and ctx = "\<lparr>pc_sc = s, pc_errors = [], pc_exception = None\<rparr>"
      and status = 0 and ps' = ps1
      and ctx' = "\<lparr>pc_sc = s, pc_errors = [], pc_exception = None\<rparr>"]
  from assms(1) have w: "runParser_while yypush_parse tokenize b [] yypstate_new
      \<lparr>pc_sc = s, pc_errors = [], pc_exception = None\<rparr> [] =
      Some (Inr 0, \<lparr>pc_sc = s, pc_errors = [], pc_exception = None\<rparr>,
            if b then [''> ''] else [], [])"
    by (simp add: e rethrow_exception_if_occurred_def)
  show ?thesis
    using assms(2)
    by (simp add: parseFromStdin_def runParser_def runParser_parse_def w runParser_finish_def)
qed

lemma parseFromStdin_separator:
  assumes "CHR 0x0A \<notin> set line" and "\<not> endsWith line [CHR 0x5C]"
    and "spec_suppress EOF_TOKEN (tokenize (line @ [CHR 0x0A])) = [(CMD_SEP, v)]"
    and "yypush_parse yypstate_new CMD_SEP (Some v)
             \<lparr>pc_sc = s, pc_errors = [], pc_exception = None\<rparr> =
           (YYPUSH_MORE, ps1, \<lparr>pc_sc = s, pc_errors = [], pc_exception = None\<rparr>)"
    and "yypush_parse ps1 EOF_TOKEN None
             \<lparr>pc_sc = s, pc_errors = [], pc_exception = None\<rparr> =
           (0, ps2, \<lparr>pc_sc = s, pc_errors = [], pc_exception = None\<rparr>)"
    and "nr \<le> 0"
  shows "parseFromStdin yypush_parse tokenize yypstate_new (line @ [CHR 0x0A]) nr b s =
           Some (if b then [''> '', ''> ''] else [], Inr [], s, [])"
proof -
  let ?c = "\<lparr>pc_sc = s, pc_errors = [], pc_exception = None\<rparr>"
  have l: "runParserLoop yypush_parse True (tokenize (line @ [CHR 0x0A])) yypstate_new ?c =
      Some (Inr YYPUSH_MORE, ps1, ?c)"
    by (simp add: runParserLoop_def runParserLoop_do_interactive assms(3,4)
          rethrow_exception_if_occurred_def)
  note e = runParser_while_eof[where yypush_parse = yypush_parse and parserState = ps1
      and ctx = ?c and status = 0 and ps' = ps2 and ctx' = ?c]
  from assms(5) have w2: "runParser_while yypush_parse tokenize b [] ps1 ?c out =
      Some (Inr 0, ?c, out @ (if b then [''> ''] else []), [])" for out
    by (simp add: e rethrow_exception_if_occurred_def)
  have w: "runParser_while yypush_parse tokenize b (line @ [CHR 0x0A]) yypstate_new ?c [] =
      Some (Inr 0, ?c, if b then [''> '', ''> ''] else [], [])"
    by (subst runParser_while.simps)
       (simp add: promptLine_one[OF assms(1,2)] l w2)
  show ?thesis
    using assms(6)
    by (simp add: parseFromStdin_def runParser_def runParser_parse_def w runParser_finish_def)
qed

lemma stdin_two_lines_example:
  "parseFromStdin ex_logging_parser ex_tokenize () (''a'' @ [CHR 0x0A, CHR 0x0A]) (- 1) False
       (Impl_init () :: (unit, unit, token_t) impl) =
     Some ([], Inr [OTHER_TOKEN 97, CMD_SEP, CMD_SEP, EOF_TOKEN],
           (Impl_init ())\<lparr>sc_sel := [OTHER_TOKEN 97, CMD_SEP, CMD_SEP, EOF_TOKEN]\<rparr>, '''')"
proof -
  let ?P = "ex_logging_parser :: (unit, unit, unit, unit, token_t) yypush_parse"
  let ?s = "Impl_init () :: (unit, unit, token_t) impl"
  let ?c = "\<lambda>sels. \<lparr>pc_sc = ?s\<lparr>sc_sel := sels\<rparr>, pc_errors = [], pc_exception = None\<rparr>"
  have c0: "\<lparr>pc_sc = ?s, pc_errors = [], pc_exception = None\<rparr> = ?c []"
    by (simp add: Impl_init_def)
  have p1: "promptLine False (''a'' @ [CHR 0x0A, CHR 0x0A]) = (True, ''a'', [CHR 0x0A], [])"
    using promptLine_regular[of _ "[]" "''a''" False "[CHR 0x0A]"]
    by (simp add: endsWith_def)
  have p2: "promptLine False [CHR 0x0A] = (True, [], [], [])"
    using promptLine_regular[of _ "[]" "[]" False "[]"]
    by (simp add: endsWith_def)
  have w3: "runParser_while ?P ex_tokenize False []  () (?c [OTHER_TOKEN 97, CMD_SEP, CMD_SEP]) [] =
      Some (Inr 0, ?c [OTHER_TOKEN 97, CMD_SEP, CMD_SEP, EOF_TOKEN], [], [])"
    by (subst runParser_while.simps)
       (simp add: promptLine_empty ex_logging_parser_def rethrow_exception_if_occurred_def)
  have l2: "runParserLoop ?P True (ex_tokenize [CHR 0x0A]) () (?c [OTHER_TOKEN 97, CMD_SEP]) =
      Some (Inr YYPUSH_MORE, (), ?c [OTHER_TOKEN 97, CMD_SEP, CMD_SEP])"
    by (simp add: runParserLoop_def runParserLoop_do_interactive ex_tokenize_def
          ex_logging_parser_def YYPUSH_MORE_def rethrow_exception_if_occurred_def)
  have w2: "runParser_while ?P ex_tokenize False [CHR 0x0A] () (?c [OTHER_TOKEN 97, CMD_SEP]) [] =
      Some (Inr 0, ?c [OTHER_TOKEN 97, CMD_SEP, CMD_SEP, EOF_TOKEN], [], [])"
    by (subst runParser_while.simps) (simp add: p2 l2[simplified] w3[simplified])
  have l1: "runParserLoop ?P True (ex_tokenize (''a'' @ [CHR 0x0A])) () (?c []) =
      Some (Inr YYPUSH_MORE, (), ?c [OTHER_TOKEN 97, CMD_SEP])"
    by (simp add: runParserLoop_def runParserLoop_do_interactive ex_tokenize_def
          ex_logging_parser_def YYPUSH_MORE_def rethrow_exception_if_occurred_def)
  have w1: "runParser_while ?P ex_tokenize False (''a'' @ [CHR 0x0A, CHR 0x0A]) () (?c []) [] =
      Some (Inr 0, ?c [OTHER_TOKEN 97, CMD_SEP, CMD_SEP, EOF_TOKEN], [], [])"
    by (subst runParser_while.simps) (simp add: p1[simplified] l1[simplified] w2[simplified])
  have s0: "sc_sel ?s = []" by (simp add: Impl_init_def)
  show ?thesis
    unfolding parseFromStdin_def runParser_def runParser_parse_def
    by (simp add: c0 w1[simplified] runParser_finish_def s0)
qed

text \<open>
  Claim C7, amended. In the line-based mode, which \<^verbatim>\<open>parseFromStdin\<close> uses, one call of
  \<^verbatim>\<open>runParserLoop\<close> handles one line: within it a separator that follows a pushed
  separator is not pushed to the parser, and neither is the end of the line. The test
  starts anew with every line (\<^verbatim>\<open>prevToken\<close> is a local of \<^verbatim>\<open>runParserLoop\<close>), so the
  first separator of a line is pushed whatever ended the line before. In the string and
  file mode every token is pushed, consecutive separators too, and then the end of the
  input. In both modes an empty input and an input that is a lone separator yield no
  selection and no error whenever the parser accepts the end of the input (after the one
  separator that reaches it) and leaves the collection and the collector as they are;
  for \<^verbatim>\<open>parseFromStdin\<close>, when no number of selections is asked for.
\<close>

theorem empty_command_suppression:
  "runParserLoop_do yypush_parse True input prevToken parserState ctx =
     Some (spec_push_tokens yypush_parse (spec_suppress prevToken input) parserState ctx)
   \<and> runParserLoop yypush_parse True input parserState ctx =
       Some (case spec_push_tokens yypush_parse (spec_suppress EOF_TOKEN input) parserState ctx of
               (status, parserState', ctx') \<Rightarrow>
                 (rethrow_exception_if_occurred ctx' status, parserState', ctx'))
   \<and> spec_suppress EOF_TOKEN ((CMD_SEP, v) # input) = (CMD_SEP, v) # spec_suppress CMD_SEP input
   \<and> runParserLoop_do yypush_parse False input prevToken parserState ctx =
       (case spec_push_tokens yypush_parse input parserState ctx of
          (status, parserState', ctx') \<Rightarrow>
            if status = YYPUSH_MORE
            then runParserLoop_do yypush_parse False [] prevToken parserState' ctx'
            else Some (status, parserState', ctx'))
   \<and> (fst (yypush_parse parserState EOF_TOKEN None ctx) \<noteq> YYPUSH_MORE \<longrightarrow>
        runParserLoop_do yypush_parse False [] prevToken parserState ctx =
          Some (yypush_parse parserState EOF_TOKEN None ctx))
   \<and> (tokenize str = []
        \<and> yypush_parse yypstate_new EOF_TOKEN None
              \<lparr>pc_sc = s, pc_errors = [], pc_exception = None\<rparr> =
            (0, ps1, \<lparr>pc_sc = s, pc_errors = [], pc_exception = None\<rparr>) \<longrightarrow>
        parseFromString yypush_parse tokenize yypstate_new stdinFile str s =
          Some ([], Inr [], s, stdinFile))
   \<and> (tokenize str = [(CMD_SEP, v)]
        \<and> yypush_parse yypstate_new CMD_SEP (Some v)
              \<lparr>pc_sc = s, pc_errors = [], pc_exception = None\<rparr> =
            (YYPUSH_MORE, ps1, \<lparr>pc_sc = s, pc_errors = [], pc_exception = None\<rparr>)
        \<and> yypush_parse ps1 EOF_TOKEN None
              \<lparr>pc_sc = s, pc_errors = [], pc_exception = None\<rparr> =
            (0, ps2, \<lparr>pc_sc = s, pc_errors = [], pc_exception = None\<rparr>) \<longrightarrow>
        parseFromString yypush_parse tokenize yypstate_new stdinFile str s =
          Some ([], Inr [], s, stdinFile))
   \<and> (yypush_parse yypstate_new EOF_TOKEN None
              \<lparr>pc_sc = s, pc_errors = [], pc_exception = None\<rparr> =
            (0, ps1, \<lparr>pc_sc = s, pc_errors = [], pc_exception = None\<rparr>)
        \<and> nr \<le> 0 \<longrightarrow>
        parseFromStdin yypush_parse tokenize yypstate_new [] nr bInteractive s =
          Some (if bInteractive then [''> ''] else [], Inr [], s, []))
   \<and> (CHR 0x0A \<notin> set line \<and> \<not> endsWith line [CHR 0x5C]
        \<and> spec_suppress EOF_TOKEN (tokenize (line @ [CHR 0x0A])) = [(CMD_SEP, v)]
        \<and> yypush_parse yypstate_new CMD_SEP (Some v)
              \<lparr>pc_sc = s, pc_errors = [], pc_exception = None\<rparr> =
            (YYPUSH_MORE, ps1, \<lparr>pc_sc = s, pc_errors = [], pc_exception = None\<rparr>)
        \<and> yypush_parse ps1 EOF_TOKEN None
              \<lparr>pc_sc = s, pc_errors = [], pc_exception = None\<rparr> =
            (0, ps2, \<lparr>pc_sc = s, pc_errors = [], pc_exception = None\<rparr>)
        \<and> nr \<le> 0 \<longrightarrow>
        parseFromStdin yypush_parse tokenize yypstate_new (line @ [CHR 0x0A]) nr bInteractive s =
          Some (if bInteractive then [''> '', ''> ''] else [], Inr [], s, []))"
proof -
  let ?ctx0 = "\<lparr>pc_sc = s, pc_errors = [], pc_exception = None\<rparr>"
  have fin: "runParser_finish (int (length (sc_sel s))) (- 1) 0 ?ctx0 = Inr []"
    by (simp add: runParser_finish_def)
  have via: "parseFromString yypush_parse tokenize yypstate_new stdinFile str s =
          Some ([], Inr [], s, stdinFile)"
    if "runParser_parse yypush_parse tokenize yypstate_new stdinFile
           \<lparr>lex_sc = s, lex_interactive = False, lex_input = tokenize str\<rparr> False =
         Some (Inr 0, ?ctx0, [], stdinFile)"
    using that fin by (simp add: parseFromString_def runParser_def)
  have empty: "parseFromString yypush_parse tokenize yypstate_new stdinFile str s =
          Some ([], Inr [], s, stdinFile)"
    if "tokenize str = []" and "yypush_parse yypstate_new EOF_TOKEN None ?ctx0 = (0, ps1, ?ctx0)"
  proof -
    from that(1) have "spec_push_tokens yypush_parse (tokenize str) yypstate_new ?ctx0 =
        (YYPUSH_MORE, yypstate_new, ?ctx0)" by simp
    from parseFromString_via_tokens[where tokenize = tokenize and str = str
            and stdinFile = stdinFile, OF this that(2)]
    show ?thesis
      by (intro via) (simp add: YYPUSH_MORE_def rethrow_exception_if_occurred_def)
  qed
  have sep: "parseFromString yypush_parse tokenize yypstate_new stdinFile str s =
          Some ([], Inr [], s, stdinFile)"
    if "tokenize str = [(CMD_SEP, v)]"
      and "yypush_parse yypstate_new CMD_SEP (Some v) ?ctx0 = (YYPUSH_MORE, ps1, ?ctx0)"
      and "yypush_parse ps1 EOF_TOKEN None ?ctx0 = (0, ps2, ?ctx0)"
  proof -
    from that(1,2) have "spec_push_tokens yypush_parse (tokenize str) yypstate_new ?ctx0 =
        (YYPUSH_MORE, ps1, ?ctx0)" by simp
    from parseFromString_via_tokens[where tokenize = tokenize and str = str
            and stdinFile = stdinFile, OF this that(3)]
    show ?thesis
      by (intro via) (simp add: YYPUSH_MORE_def rethrow_exception_if_occurred_def)
  qed
  have line1: "runParserLoop yypush_parse True input parserState ctx =
       Some (case spec_push_tokens yypush_parse (spec_suppress EOF_TOKEN input) parserState ctx of
               (status, parserState', ctx') \<Rightarrow>
                 (rethrow_exception_if_occurred ctx' status, parserState', ctx'))"
    by (simp add: runParserLoop_def runParserLoop_do_interactive case_prod_beta)
  have first: "spec_suppress EOF_TOKEN ((CMD_SEP, v) # input) =
      (CMD_SEP, v) # spec_suppress CMD_SEP input"
    by simp
  have stdin_empty: "parseFromStdin yypush_parse tokenize yypstate_new [] nr bInteractive s =
          Some (if bInteractive then [''> ''] else [], Inr [], s, [])"
    if "yypush_parse yypstate_new EOF_TOKEN None ?ctx0 = (0, ps1, ?ctx0)" and "nr \<le> 0"
    using that by (rule parseFromStdin_empty)
  have stdin_sep: "parseFromStdin yypush_parse tokenize yypstate_new (line @ [CHR 0x0A]) nr
            bInteractive s =
          Some (if bInteractive then [''> '', ''> ''] else [], Inr [], s, [])"
    if "CHR 0x0A \<notin> set line" and "\<not> endsWith line [CHR 0x5C]"
      and "spec_suppress EOF_TOKEN (tokenize (line @ [CHR 0x0A])) = [(CMD_SEP, v)]"
      and "yypush_parse yypstate_new CMD_SEP (Some v) ?ctx0 = (YYPUSH_MORE, ps1, ?ctx0)"
      and "yypush_parse ps1 EOF_TOKEN None ?ctx0 = (0, ps2, ?ctx0)" and "nr \<le> 0"
    using that by (rule parseFromStdin_separator)
  from runParserLoop_do_interactive[of yypush_parse input prevToken parserState ctx]
       runParserLoop_do_batch[of yypush_parse input prevToken parserState ctx]
       runParserLoop_do_eof[of yypush_parse parserState ctx prevToken]
       line1 first empty sep stdin_empty stdin_sep
  show ?thesis by blast
qed

theorem empty_command_suppression_witness:
  "runParserLoop_do ex_recording_parser True
       [(OTHER_TOKEN 1, ()), (CMD_SEP, ()), (CMD_SEP, ()), (OTHER_TOKEN 2, ())] EOF_TOKEN
       [] ex_ctx =
     Some (YYPUSH_MORE, [OTHER_TOKEN 1, CMD_SEP, OTHER_TOKEN 2], ex_ctx)
   \<and> fst (ex_recording_parser [] EOF_TOKEN (None :: unit option) ex_ctx) \<noteq> YYPUSH_MORE
   \<and> runParserLoop_do ex_recording_parser False ([] :: (token_t \<times> unit) list) EOF_TOKEN
        [] ex_ctx = Some (0, [EOF_TOKEN], ex_ctx)
   \<and> ex_tokenize '''' = []
   \<and> ex_recording_parser [] EOF_TOKEN (None :: unit option) ex_ctx = (0, [EOF_TOKEN], ex_ctx)
   \<and> parseFromString ex_recording_parser ex_tokenize [] '''' '''' (pc_sc ex_ctx) =
       Some ([], Inr [], pc_sc ex_ctx, '''')
   \<and> ex_tokenize '';'' = [(CMD_SEP, ())]
   \<and> ex_recording_parser [] CMD_SEP (Some ()) ex_ctx = (YYPUSH_MORE, [CMD_SEP], ex_ctx)
   \<and> ex_recording_parser [CMD_SEP] EOF_TOKEN (None :: unit option) ex_ctx =
       (0, [CMD_SEP, EOF_TOKEN], ex_ctx)
   \<and> parseFromString ex_recording_parser ex_tokenize [] '''' '';'' (pc_sc ex_ctx) =
       Some ([], Inr [], pc_sc ex_ctx, '''')
   \<and> parseFromStdin ex_recording_parser ex_tokenize [] '''' (- 1) True (pc_sc ex_ctx) =
       Some ([''> ''], Inr [], pc_sc ex_ctx, '''')
   \<and> CHR 0x0A \<notin> set '';'' \<and> \<not> endsWith '';'' [CHR 0x5C]
   \<and> ex_tokenize ('';'' @ [CHR 0x0A]) = [(CMD_SEP, ()), (CMD_SEP, ())]
   \<and> spec_suppress EOF_TOKEN (ex_tokenize ('';'' @ [CHR 0x0A])) = [(CMD_SEP, ())]
   \<and> parseFromStdin ex_recording_parser ex_tokenize [] ('';'' @ [CHR 0x0A]) (- 1) True
         (pc_sc ex_ctx) =
       Some ([''> '', ''> ''], Inr [], pc_sc ex_ctx, '''')
   \<and> parseFromStdin ex_logging_parser ex_tokenize () (''a'' @ [CHR 0x0A, CHR 0x0A]) (- 1) False
       (Impl_init () :: (unit, unit, token_t) impl) =
     Some ([], Inr [OTHER_TOKEN 97, CMD_SEP, CMD_SEP, EOF_TOKEN],
           (Impl_init ())\<lparr>sc_sel := [OTHER_TOKEN 97, CMD_SEP, CMD_SEP, EOF_TOKEN]\<rparr>, '''')"
proof -
  have c: "ex_ctx = \<lparr>pc_sc = pc_sc ex_ctx, pc_errors = [], pc_exception = None\<rparr>"
    by (simp add: ex_ctx_def)
  note inst = empty_command_suppression[where yypush_parse = ex_recording_parser
      and input = "[(OTHER_TOKEN 1, ()), (CMD_SEP, ()), (CMD_SEP, ()), (OTHER_TOKEN 2, ())]"
      and prevToken = EOF_TOKEN and parserState = "[]" and ctx = ex_ctx
      and tokenize = ex_tokenize and yypstate_new = "[]" and s = "pc_sc ex_ctx"
      and stdinFile = "''''" and nr = "- 1" and bInteractive = True and v = "()",
      folded c]
  have h: "fst (ex_recording_parser [] EOF_TOKEN (None :: unit option) ex_ctx) \<noteq> YYPUSH_MORE"
    by (simp add: ex_recording_parser_def YYPUSH_MORE_def)
  have t1: "ex_tokenize '''' = []" and t2: "ex_tokenize '';'' = [(CMD_SEP, ())]"
    and t3: "spec_suppress EOF_TOKEN (ex_tokenize ('';'' @ [CHR 0x0A])) = [(CMD_SEP, ())]"
    by (simp_all add: ex_tokenize_def)
  have n1: "CHR 0x0A \<notin> set '';''" and n2: "\<not> endsWith '';'' [CHR 0x5C]"
    and n3: "(- 1 :: int) \<le> 0"
    by (simp_all add: endsWith_def)
  have p1: "ex_recording_parser [] EOF_TOKEN (None :: unit option) ex_ctx = (0, [EOF_TOKEN], ex_ctx)"
    and p2: "ex_recording_parser [] CMD_SEP (Some ()) ex_ctx = (YYPUSH_MORE, [CMD_SEP], ex_ctx)"
    and p3: "ex_recording_parser [CMD_SEP] EOF_TOKEN (None :: unit option) ex_ctx =
       (0, [CMD_SEP, EOF_TOKEN], ex_ctx)"
    by (simp_all add: ex_recording_parser_def)
  from inst have "runParserLoop_do ex_recording_parser True
       [(OTHER_TOKEN 1, ()), (CMD_SEP, ()), (CMD_SEP, ()), (OTHER_TOKEN 2, ())] EOF_TOKEN
       [] ex_ctx =
     Some (spec_push_tokens ex_recording_parser (spec_suppress EOF_TOKEN
       [(OTHER_TOKEN 1, ()), (CMD_SEP, ()), (CMD_SEP, ()), (OTHER_TOKEN 2, ())]) [] ex_ctx)"
    by (rule conjunct1)
  then have a: "runParserLoop_do ex_recording_parser True
       [(OTHER_TOKEN 1, ()), (CMD_SEP, ()), (CMD_SEP, ()), (OTHER_TOKEN 2, ())] EOF_TOKEN
       [] ex_ctx =
     Some (YYPUSH_MORE, [OTHER_TOKEN 1, CMD_SEP, OTHER_TOKEN 2], ex_ctx)"
    by (simp add: ex_recording_parser_def YYPUSH_MORE_def)
  from inst h p1 have b: "runParserLoop_do ex_recording_parser False
       ([] :: (token_t \<times> unit) list) EOF_TOKEN [] ex_ctx = Some (0, [EOF_TOKEN], ex_ctx)"
    by (metis (no_types))
  from inst[where str = "''''" and ?ps1.0 = "[EOF_TOKEN]"] t1 p1
  have d: "parseFromString ex_recording_parser ex_tokenize [] '''' '''' (pc_sc ex_ctx) =
       Some ([], Inr [], pc_sc ex_ctx, '''')"
    by (metis (no_types))
  from inst[where str = "'';''" and ?ps1.0 = "[CMD_SEP]"
         and ?ps2.0 = "[CMD_SEP, EOF_TOKEN]"] t2 p2 p3
  have e: "parseFromString ex_recording_parser ex_tokenize [] '''' '';'' (pc_sc ex_ctx) =
       Some ([], Inr [], pc_sc ex_ctx, '''')"
    by (metis (no_types))
  from inst[where ?ps1.0 = "[EOF_TOKEN]"] p1 n3
  have f: "parseFromStdin ex_recording_parser ex_tokenize [] '''' (- 1) True (pc_sc ex_ctx) =
       Some ([''> ''], Inr [], pc_sc ex_ctx, '''')"
    by (metis (no_types))
  from inst[where line = "'';''" and ?ps1.0 = "[CMD_SEP]"
         and ?ps2.0 = "[CMD_SEP, EOF_TOKEN]"] n1 n2 t3 p2 p3 n3
  have g: "parseFromStdin ex_recording_parser ex_tokenize [] ('';'' @ [CHR 0x0A]) (- 1) True
         (pc_sc ex_ctx) =
       Some ([''> '', ''> ''], Inr [], pc_sc ex_ctx, '''')"
    by (metis (no_types))
  have t4: "ex_tokenize ('';'' @ [CHR 0x0A]) = [(CMD_SEP, ()), (CMD_SEP, ())]"
    by (simp add: ex_tokenize_def)
  from a h b t1 p1 d t2 p2 p3 e f n1 n2 t4 t3 g stdin_two_lines_example show ?thesis
    by (intro conjI)
qed














end
